theory Spec2Isabelle
  imports Main "HOL-Library.Sublist" "HOL-Library.Multiset"
begin

section \<open>Strings of the platform\<close>

text \<open>
  The storage layer (the module \<^verbatim>\<open>./kv\<close> that \<^verbatim>\<open>src/index.ts\<close> imports, here
  \<^verbatim>\<open>src/unnamed/part_003\<close>) works on JavaScript strings. They are modelled as \<open>string\<close>;
  the operations of \<^verbatim>\<open>String.prototype\<close> the code calls are written out below.
  \<open>toLowerCase\<close> and \<open>trim\<close> are given on the ASCII range.
\<close>

fun split :: "char \<Rightarrow> string \<Rightarrow> string list" where
  "split sep [] = [[]]"
| "split sep (c # cs) =
     (if c = sep then [] # split sep cs
      else case split sep cs of
             [] \<Rightarrow> [[c]]
           | x # xs \<Rightarrow> (c # x) # xs)"

fun join :: "string \<Rightarrow> string list \<Rightarrow> string" where
  "join sep [] = []"
| "join sep [x] = x"
| "join sep (x # y # ys) = x @ sep @ join sep (y # ys)"

definition is_space :: "char \<Rightarrow> bool" where
  "is_space c = (c \<in> set [CHR 0x09, CHR 0x0A, CHR 0x0B, CHR 0x0C, CHR 0x0D, CHR 0x20])"

definition trim :: "string \<Rightarrow> string" where
  "trim s = rev (dropWhile is_space (rev (dropWhile is_space s)))"

definition lower_char :: "char \<Rightarrow> char" where
  "lower_char c =
     (case map_of (zip ''ABCDEFGHIJKLMNOPQRSTUVWXYZ'' ''abcdefghijklmnopqrstuvwxyz'') c of
        Some d \<Rightarrow> d
      | None \<Rightarrow> c)"

definition toLowerCase :: "string \<Rightarrow> string" where
  "toLowerCase s = map lower_char s"

definition startsWith :: "string \<Rightarrow> string \<Rightarrow> bool" where
  "startsWith s p = prefix p s"

fun includes_str :: "string \<Rightarrow> string \<Rightarrow> bool" where
  "includes_str [] q = (q = [])"
| "includes_str (c # cs) q = (prefix q (c # cs) \<or> includes_str cs q)"

text \<open>\<^verbatim>\<open>raw ? a : b\<close> on a value read from the store: \<^verbatim>\<open>null\<close> and the empty string are falsy.\<close>

definition truthy :: "string option \<Rightarrow> bool" where
  "truthy raw = (case raw of None \<Rightarrow> False | Some s \<Rightarrow> s \<noteq> [])"

section \<open>JSON texts\<close>

text \<open>
  \<^verbatim>\<open>JSON.stringify\<close> and \<^verbatim>\<open>JSON.parse\<close> at the two types the code serialises: an array of
  strings (the indexes) and a \<^verbatim>\<open>PostMetadata\<close> object. \<open>quote_json\<close> is ECMAScript's
  QuoteJSONString on 8-bit characters. The parser reads the texts the serialiser writes
  (no insignificant white space); \<open>None\<close> stands for the exception raised on any other
  text, and for a parsed value that is not of the type the code declares.
\<close>

definition hex_digits :: string where
  "hex_digits = ''0123456789abcdef''"

definition hex_value :: "char \<Rightarrow> nat option" where
  "hex_value c = map_of (zip (hex_digits @ ''ABCDEF'') ([0..<16] @ [10..<16])) c"

definition short_escapes :: "(char \<times> char) list" where
  "short_escapes =
     [(CHR 0x22, CHR 0x22), (CHR 0x5C, CHR 0x5C), (CHR 0x08, CHR ''b''), (CHR 0x0C, CHR ''f''),
      (CHR 0x0A, CHR ''n''), (CHR 0x0D, CHR ''r''), (CHR 0x09, CHR ''t'')]"

definition quote_char :: "char \<Rightarrow> string" where
  "quote_char c =
     (case map_of short_escapes c of
        Some e \<Rightarrow> [CHR 0x5C, e]
      | None \<Rightarrow>
          if (of_char c :: nat) < 32
          then [CHR 0x5C, CHR ''u'', CHR ''0'', CHR ''0'',
                hex_digits ! (of_char c div 16), hex_digits ! (of_char c mod 16)]
          else [c])"

definition quote_json :: "string \<Rightarrow> string" where
  "quote_json s = CHR 0x22 # concat (map quote_char s) @ [CHR 0x22]"

definition unescape :: "char \<Rightarrow> char option" where
  "unescape e = map_of ((CHR ''/'', CHR ''/'') # map (\<lambda>(c, e). (e, c)) short_escapes) e"

definition hex4 :: "char \<Rightarrow> char \<Rightarrow> char \<Rightarrow> char \<Rightarrow> nat option" where
  "hex4 a b c d =
     (case (hex_value a, hex_value b, hex_value c, hex_value d) of
        (Some w, Some x, Some y, Some z) \<Rightarrow> Some (((w * 16 + x) * 16 + y) * 16 + z)
      | _ \<Rightarrow> None)"

text \<open>The characters of a JSON string after its opening quote, and the text that follows it.\<close>

fun parse_chars :: "string \<Rightarrow> (string \<times> string) option" where
  "parse_chars [] = None"
| "parse_chars (c # cs) =
    (if c = CHR 0x22 then Some ([], cs)
     else if c = CHR 0x5C then
       (case cs of
          [] \<Rightarrow> None
        | e # cs' \<Rightarrow>
           (if e = CHR ''u'' then
              (case cs' of
                 h1 # h2 # h3 # h4 # rest \<Rightarrow>
                   (case hex4 h1 h2 h3 h4 of
                      None \<Rightarrow> None
                    | Some n \<Rightarrow>
                        if n < 256
                        then map_option (apfst ((#) (char_of n))) (parse_chars rest)
                        else None)
               | _ \<Rightarrow> None)
            else (case unescape e of
                    None \<Rightarrow> None
                  | Some d \<Rightarrow> map_option (apfst ((#) d)) (parse_chars cs'))))
     else if (of_char c :: nat) < 32 then None
     else map_option (apfst ((#) c)) (parse_chars cs))"

lemma hex_value_digit: "k < 16 \<Longrightarrow> hex_value (hex_digits ! k) = Some k"
proof -
  assume "k < 16"
  then have "k \<in> set [0..<16]" by simp
  then show ?thesis
    unfolding hex_value_def hex_digits_def
    by (simp add: upt_rec numeral_eq_Suc) (elim disjE; simp)
qed

lemma parse_quote_char:
  "parse_chars (quote_char c @ rest) = map_option (apfst ((#) c)) (parse_chars rest)"
proof (cases "map_of short_escapes c")
  case (Some e)
  then have "(c, e) \<in> set short_escapes" by (rule map_of_SomeD)
  then show ?thesis
    by (auto simp: short_escapes_def quote_char_def unescape_def)
next
  case None
  then have ne: "c \<noteq> CHR 0x22" "c \<noteq> CHR 0x5C"
    by (auto simp: short_escapes_def)
  show ?thesis
  proof (cases "(of_char c :: nat) < 32")
    case False
    with None ne show ?thesis by (simp add: quote_char_def)
  next
    case True
    let ?n = "of_char c :: nat"
    have d: "?n div 16 < 16" "?n mod 16 < 16" using True by auto
    have z: "hex_value (CHR ''0'') = Some 0"
      using hex_value_digit [of 0] by (simp add: hex_digits_def)
    have "hex4 (CHR ''0'') (CHR ''0'') (hex_digits ! (?n div 16)) (hex_digits ! (?n mod 16))
          = Some ?n"
      by (simp add: hex4_def z hex_value_digit d)
    moreover have "?n < 256" using True by simp
    moreover have "char_of ?n = c" by simp
    ultimately show ?thesis using None True
      by (simp add: quote_char_def)
  qed
qed

lemma parse_quoted:
  "parse_chars (concat (map quote_char s) @ CHR 0x22 # rest) = Some (s, rest)"
  by (induction s) (simp_all add: parse_quote_char)

lemma parse_chars_shorter: "parse_chars s = Some (x, r) \<Longrightarrow> length r < length s"
proof (induction s arbitrary: x r rule: parse_chars.induct)
  case 1
  then show ?case by simp
next
  case (2 c cs)
  then show ?case
    by (fastforce split: if_splits list.splits option.splits)
qed

definition JSON_stringify_list :: "string list \<Rightarrow> string" where
  "JSON_stringify_list xs = ''['' @ join '','' (map quote_json xs) @ '']''"

function parse_elements :: "string \<Rightarrow> (string list \<times> string) option" where
  "parse_elements [] = None"
| "parse_elements (q # s1) =
     (if q \<noteq> CHR 0x22 then None
      else case parse_chars s1 of
             None \<Rightarrow> None
           | Some (x, s2) \<Rightarrow>
               (case s2 of
                  [] \<Rightarrow> None
                | d # s3 \<Rightarrow>
                    if d = CHR '']'' then Some ([x], s3)
                    else if d = CHR '','' then map_option (apfst ((#) x)) (parse_elements s3)
                    else None))"
  by pat_completeness auto
termination
  by (relation "measure length") (auto dest: parse_chars_shorter)

text \<open>An array of strings after its opening bracket.\<close>

definition parse_array :: "string \<Rightarrow> (string list \<times> string) option" where
  "parse_array s =
     (case s of
        [] \<Rightarrow> None
      | c # r \<Rightarrow> if c = CHR '']'' then Some ([], r) else parse_elements s)"

definition JSON_parse_list :: "string \<Rightarrow> string list option" where
  "JSON_parse_list s =
     (case s of
        [] \<Rightarrow> None
      | c # r \<Rightarrow>
          if c = CHR ''['' then
            (case parse_array r of
               Some (xs, []) \<Rightarrow> Some xs
             | _ \<Rightarrow> None)
          else None)"

lemma parse_elements_join:
  "xs \<noteq> [] \<Longrightarrow>
   parse_elements (join '','' (map quote_json xs) @ CHR '']'' # rest) = Some (xs, rest)"
proof (induction xs rule: induct_list012)
  case 1
  then show ?case by simp
next
  case (2 x)
  show ?case by (simp add: quote_json_def parse_quoted)
next
  case (3 x y zs)
  then show ?case by (simp add: quote_json_def parse_quoted)
qed

lemma parse_array_stringify:
  "parse_array (tl (JSON_stringify_list xs) @ rest) = Some (xs, rest)"
proof (cases xs)
  case Nil
  then show ?thesis by (simp add: parse_array_def JSON_stringify_list_def)
next
  case (Cons x ys)
  then have ne: "xs \<noteq> []" by simp
  obtain t where hd: "join '','' (map quote_json xs) = CHR 0x22 # t"
    using Cons by (cases ys) (simp_all add: quote_json_def)
  have "parse_array (join '','' (map quote_json xs) @ CHR '']'' # rest) = Some (xs, rest)"
    using parse_elements_join [OF ne, of rest] by (simp add: parse_array_def hd)
  then show ?thesis by (simp add: JSON_stringify_list_def)
qed

lemma JSON_parse_stringify_list: "JSON_parse_list (JSON_stringify_list xs) = Some xs"
  using parse_array_stringify [of xs "[]"]
  by (simp add: JSON_parse_list_def JSON_stringify_list_def)

lemma JSON_stringify_list_nonempty: "JSON_stringify_list xs \<noteq> []"
  by (simp add: JSON_stringify_list_def)

section \<open>Types of the storage layer\<close>

text \<open>
  \<^verbatim>\<open>src/types.ts\<close>. An optional property is an \<open>option\<close>. The property \<open>status\<close> of
  \<^verbatim>\<open>PostMetadata\<close> is declared \<^verbatim>\<open>'draft' | 'published'\<close>; the extractor assigns it through a
  cast from an arbitrary string, and leaves it unset when the front matter has no status
  line, so the value the program holds there is an optional string.
\<close>

record PostMetadata =
  title :: string
  date :: string
  author :: string
  status :: "string option"
  category :: string
  excerpt :: "string option"
  tags :: "string list option"
  language :: "string option"

text \<open>\<^verbatim>\<open>SyncPayload\<close>; its content and metadata are prefixed, \<^verbatim>\<open>Post\<close> has the same names.\<close>

record SyncPayload =
  key :: string
  payload_content :: string
  payload_metadata :: "PostMetadata option"

record Post =
  slug :: string
  metadata :: PostMetadata
  content :: string

record CategoryInfo =
  name :: string
  postCount :: nat
  posts :: "string list"

text \<open>The parameter \<^verbatim>\<open>status: 'draft' | 'published'\<close> of the exported functions.\<close>

datatype visibility = Draft | Published

fun status_string :: "visibility \<Rightarrow> string" where
  "status_string Draft = ''draft''"
| "status_string Published = ''published''"

datatype error =
  Error string  \<comment> \<open>\<^verbatim>\<open>throw new Error(message)\<close>\<close>
| MalformedJSON  \<comment> \<open>\<^verbatim>\<open>JSON.parse\<close> raised, or the value is not of the declared type\<close>

section \<open>JSON text of a metadata object\<close>

datatype json_value = JString string | JArray "string list"

definition stringify_value :: "json_value \<Rightarrow> string" where
  "stringify_value v = (case v of JString s \<Rightarrow> quote_json s | JArray xs \<Rightarrow> JSON_stringify_list xs)"

definition stringify_member :: "string \<times> json_value \<Rightarrow> string" where
  "stringify_member kv = quote_json (fst kv) @ '':'' @ stringify_value (snd kv)"

definition parse_value :: "string \<Rightarrow> (json_value \<times> string) option" where
  "parse_value s =
     (case s of
        [] \<Rightarrow> None
      | c # r \<Rightarrow>
          if c = CHR 0x22 then map_option (apfst JString) (parse_chars r)
          else if c = CHR ''['' then map_option (apfst JArray) (parse_array r)
          else None)"

lemma parse_elements_shorter: "parse_elements s = Some (xs, r) \<Longrightarrow> length r < length s"
proof (induction s arbitrary: xs r rule: parse_elements.induct)
  case 1
  then show ?case by simp
next
  case (2 q s1)
  then show ?case
    by (fastforce split: if_splits list.splits option.splits dest: parse_chars_shorter)
qed

lemma parse_array_shorter: "parse_array s = Some (xs, r) \<Longrightarrow> length r \<le> length s"
proof (cases s)
  case Nil
  assume "parse_array s = Some (xs, r)"
  with Nil show ?thesis by (simp add: parse_array_def)
next
  case (Cons c t)
  assume "parse_array s = Some (xs, r)"
  with Cons have "r = t \<or> parse_elements s = Some (xs, r)"
    by (simp add: parse_array_def del: parse_elements.simps split: if_splits)
  with Cons show ?thesis
    using parse_elements_shorter [of s xs r] by auto
qed

lemma parse_value_shorter: "parse_value s = Some (v, r) \<Longrightarrow> length r < length s"
proof (cases s)
  case Nil
  assume "parse_value s = Some (v, r)"
  with Nil show ?thesis by (simp add: parse_value_def)
next
  case (Cons c t)
  assume "parse_value s = Some (v, r)"
  with Cons have "(\<exists>x. parse_chars t = Some (x, r)) \<or> (\<exists>xs. parse_array t = Some (xs, r))"
    by (auto simp: parse_value_def split: if_splits)
  then have "length r \<le> length t"
    by (auto dest: parse_chars_shorter parse_array_shorter)
  with Cons show ?thesis by simp
qed

function parse_members :: "string \<Rightarrow> ((string \<times> json_value) list \<times> string) option" where
  "parse_members [] = None"
| "parse_members (q # s1) =
     (if q \<noteq> CHR 0x22 then None
      else case parse_chars s1 of
             None \<Rightarrow> None
           | Some (k, s2) \<Rightarrow>
               (case s2 of
                  [] \<Rightarrow> None
                | c # s3 \<Rightarrow>
                    if c \<noteq> CHR '':'' then None
                    else case parse_value s3 of
                           None \<Rightarrow> None
                         | Some (v, s4) \<Rightarrow>
                             (case s4 of
                                [] \<Rightarrow> None
                              | d # s5 \<Rightarrow>
                                  if d = CHR ''}'' then Some ([(k, v)], s5)
                                  else if d = CHR '','' then
                                    map_option (apfst ((#) (k, v))) (parse_members s5)
                                  else None)))"
  by pat_completeness auto
termination
  by (relation "measure length") (auto dest!: parse_chars_shorter parse_value_shorter)

text \<open>
  The properties of a metadata object, in the order of the interface's declaration; an
  unset optional property is left out, as \<^verbatim>\<open>JSON.stringify\<close> leaves out \<^verbatim>\<open>undefined\<close>.
\<close>

definition optional_member :: "string \<Rightarrow> ('a \<Rightarrow> json_value) \<Rightarrow> 'a option \<Rightarrow> (string \<times> json_value) list" where
  "optional_member k f v = (case v of None \<Rightarrow> [] | Some x \<Rightarrow> [(k, f x)])"

definition metadata_members :: "PostMetadata \<Rightarrow> (string \<times> json_value) list" where
  "metadata_members m =
     [(''title'', JString (title m)), (''date'', JString (date m)),
      (''author'', JString (author m))]
     @ optional_member ''status'' JString (status m)
     @ [(''category'', JString (category m))]
     @ optional_member ''excerpt'' JString (excerpt m)
     @ optional_member ''tags'' JArray (tags m)
     @ optional_member ''language'' JString (language m)"

definition JSON_stringify_metadata :: "PostMetadata \<Rightarrow> string" where
  "JSON_stringify_metadata m = ''{'' @ join '','' (map stringify_member (metadata_members m)) @ ''}''"

definition string_member :: "(string \<times> json_value) list \<Rightarrow> string \<Rightarrow> string option" where
  "string_member ms k = (case map_of ms k of Some (JString s) \<Rightarrow> Some s | _ \<Rightarrow> None)"

definition optional_string :: "(string \<times> json_value) list \<Rightarrow> string \<Rightarrow> string option option" where
  "optional_string ms k =
     (case map_of ms k of
        None \<Rightarrow> Some None
      | Some (JString s) \<Rightarrow> Some (Some s)
      | Some (JArray xs) \<Rightarrow> None)"

definition optional_array :: "(string \<times> json_value) list \<Rightarrow> string \<Rightarrow> string list option option" where
  "optional_array ms k =
     (case map_of ms k of
        None \<Rightarrow> Some None
      | Some (JArray xs) \<Rightarrow> Some (Some xs)
      | Some (JString s) \<Rightarrow> None)"

definition metadata_of_members :: "(string \<times> json_value) list \<Rightarrow> PostMetadata option" where
  "metadata_of_members ms =
     Option.bind (string_member ms ''title'') (\<lambda>t.
     Option.bind (string_member ms ''date'') (\<lambda>d.
     Option.bind (string_member ms ''author'') (\<lambda>a.
     Option.bind (optional_string ms ''status'') (\<lambda>st.
     Option.bind (string_member ms ''category'') (\<lambda>c.
     Option.bind (optional_string ms ''excerpt'') (\<lambda>ex.
     Option.bind (optional_array ms ''tags'') (\<lambda>tg.
     Option.bind (optional_string ms ''language'') (\<lambda>lg.
       Some \<lparr>title = t, date = d, author = a, status = st, category = c,
             excerpt = ex, tags = tg, language = lg\<rparr>))))))))"

definition JSON_parse_metadata :: "string \<Rightarrow> PostMetadata option" where
  "JSON_parse_metadata s =
     (case s of
        [] \<Rightarrow> None
      | c # r \<Rightarrow>
          if c = CHR ''{'' then
            (case parse_members r of
               Some (ms, []) \<Rightarrow> metadata_of_members (rev ms)
             | _ \<Rightarrow> None)
          else None)"

lemma parse_value_stringify:
  "parse_value (stringify_value v @ rest) = Some (v, rest)"
proof (cases v)
  case (JString s)
  then show ?thesis
    by (simp add: parse_value_def stringify_value_def quote_json_def parse_quoted)
next
  case (JArray xs)
  then show ?thesis
    using parse_array_stringify [of xs rest]
    by (simp add: parse_value_def stringify_value_def JSON_stringify_list_def)
qed

lemma parse_member_stringify:
  "parse_members (stringify_member (k, v) @ d # rest) =
     (if d = CHR ''}'' then Some ([(k, v)], rest)
      else if d = CHR '','' then map_option (apfst ((#) (k, v))) (parse_members rest)
      else None)"
  by (simp add: stringify_member_def quote_json_def parse_quoted parse_value_stringify)

lemma parse_members_join:
  "ms \<noteq> [] \<Longrightarrow>
   parse_members (join '','' (map stringify_member ms) @ CHR ''}'' # rest) = Some (ms, rest)"
proof (induction ms rule: induct_list012)
  case 1
  then show ?case by simp
next
  case (2 x)
  show ?case using parse_member_stringify [of "fst x" "snd x" "CHR ''}''" rest] by simp
next
  case (3 x y zs)
  then show ?case
    using parse_member_stringify [of "fst x" "snd x" "CHR '',''"
        "join '','' (map stringify_member (y # zs)) @ CHR ''}'' # rest"]
    by simp
qed

lemma metadata_of_members_rev:
  "metadata_of_members (rev (metadata_members m)) = Some m"
  by (cases m)
    (simp add: metadata_members_def optional_member_def metadata_of_members_def string_member_def
      optional_string_def optional_array_def split: option.splits)

lemma metadata_members_nonempty: "metadata_members m \<noteq> []"
  by (simp add: metadata_members_def)

lemma JSON_parse_stringify_metadata:
  "JSON_parse_metadata (JSON_stringify_metadata m) = Some m"
  using parse_members_join [OF metadata_members_nonempty, of m "[]"]
  by (simp add: JSON_parse_metadata_def JSON_stringify_metadata_def metadata_of_members_rev)

lemma JSON_stringify_metadata_nonempty: "JSON_stringify_metadata m \<noteq> []"
  by (simp add: JSON_stringify_metadata_def)

section \<open>Metadata extraction\<close>

text \<open>
  \<^verbatim>\<open>content.match(/^---\n([\s\S]*?)\n---/)\<close>: the text starts with the opening line, and the
  group is the shortest text after it that is followed by a line break and three dashes.
\<close>

fun until_closing :: "string \<Rightarrow> string option" where
  "until_closing [] = None"
| "until_closing (c # cs) =
     (if prefix ''\<newline>---'' (c # cs) then Some []
      else map_option ((#) c) (until_closing cs))"

definition frontmatterMatch :: "string \<Rightarrow> string option" where
  "frontmatterMatch text =
     (if prefix ''---\<newline>'' text then until_closing (drop 4 text) else None)"

text \<open>\<^verbatim>\<open>Partial<PostMetadata>\<close>: every property may be unset.\<close>

record PartialMetadata =
  title' :: "string option"
  date' :: "string option"
  author' :: "string option"
  status' :: "string option"
  category' :: "string option"
  excerpt' :: "string option"
  tags' :: "string list option"
  language' :: "string option"

definition no_metadata :: PartialMetadata where
  "no_metadata =
     \<lparr>title' = None, date' = None, author' = None, status' = None, category' = None,
      excerpt' = None, tags' = None, language' = None\<rparr>"

text \<open>The body of the loop over the lines of the front matter.\<close>

definition parse_line :: "PartialMetadata \<Rightarrow> string \<Rightarrow> PartialMetadata" where
  "parse_line md line =
     (let parts = split (CHR '':'') line;
          k = hd parts;
          valueParts = tl parts
      in if k \<noteq> [] \<and> length valueParts > 0 then
           (let v = trim (join '':'' valueParts);
                field = toLowerCase (trim k)
            in if field = ''title'' then md\<lparr>title' := Some v\<rparr>
               else if field = ''date'' then md\<lparr>date' := Some v\<rparr>
               else if field = ''author'' then md\<lparr>author' := Some v\<rparr>
               else if field = ''status'' then md\<lparr>status' := Some (toLowerCase v)\<rparr>
               else if field = ''category'' then md\<lparr>category' := Some v\<rparr>
               else if field = ''excerpt'' then md\<lparr>excerpt' := Some v\<rparr>
               else if field = ''tags'' then md\<lparr>tags' := Some (map trim (split (CHR '','') v))\<rparr>
               else if field = ''language'' then md\<lparr>language' := Some v\<rparr>
               else md)
         else md)"

definition extractMetadata :: "string \<Rightarrow> PostMetadata option" where
  "extractMetadata text =
     (case frontmatterMatch text of
        None \<Rightarrow> None
      | Some frontmatter \<Rightarrow>
          (let md = foldl parse_line no_metadata (split (CHR ''\<newline>'') frontmatter)
           in if \<not> truthy (title' md) \<or> \<not> truthy (date' md) \<or> \<not> truthy (author' md)
                 \<or> \<not> truthy (category' md)
              then None
              else Some \<lparr>title = the (title' md), date = the (date' md),
                         author = the (author' md), status = status' md,
                         category = the (category' md), excerpt = excerpt' md,
                         tags = tags' md, language = language' md\<rparr>))"

section \<open>The key-value namespace\<close>

text \<open>
  \<^verbatim>\<open>Env\<close> holds the namespace \<^verbatim>\<open>EKTUBESHI_CDN_KV\<close>, a map from keys to string values. The
  second field records the calls made on the namespace, in order, so that what an
  operation reads can be stated as well as what it writes. A call always succeeds, a
  \<^verbatim>\<open>get\<close> returns what the last \<^verbatim>\<open>put\<close> on its key stored, and one operation runs at a time.
\<close>

datatype kv_call = Get string | Put string string

record Env =
  EKTUBESHI_CDN_KV :: "string \<rightharpoonup> string"
  calls :: "kv_call list"

definition kv_get :: "Env \<Rightarrow> string \<Rightarrow> string option \<times> Env" where
  "kv_get env k = (EKTUBESHI_CDN_KV env k, env\<lparr>calls := calls env @ [Get k]\<rparr>)"

definition kv_put :: "Env \<Rightarrow> string \<Rightarrow> string \<Rightarrow> Env" where
  "kv_put env k v =
     env\<lparr>EKTUBESHI_CDN_KV := (EKTUBESHI_CDN_KV env)(k \<mapsto> v), calls := calls env @ [Put k v]\<rparr>"

text \<open>\<^verbatim>\<open>raw ? JSON.parse(raw) : []\<close>\<close>

definition parse_index :: "string option \<Rightarrow> error + string list" where
  "parse_index raw =
     (if truthy raw then
        (case JSON_parse_list (the raw) of None \<Rightarrow> Inl MalformedJSON | Some xs \<Rightarrow> Inr xs)
      else Inr [])"

section \<open>Writing a document\<close>

definition updateCategoryIndex :: "Env \<Rightarrow> string \<Rightarrow> string \<Rightarrow> (error + unit) \<times> Env" where
  "updateCategoryIndex env cat s =
     (let catIndexKey = ''index:'' @ cat;
          (catIndexRaw, env1) = kv_get env catIndexKey
      in case parse_index catIndexRaw of
           Inl e \<Rightarrow> (Inl e, env1)
         | Inr catIndex \<Rightarrow>
             if s \<notin> set catIndex
             then (Inr (), kv_put env1 catIndexKey (JSON_stringify_list (catIndex @ [s])))
             else (Inr (), env1))"

definition updateCategoriesList :: "Env \<Rightarrow> string \<Rightarrow> (error + unit) \<times> Env" where
  "updateCategoriesList env cat =
     (let categoriesKey = ''index:categories'';
          (categoriesRaw, env1) = kv_get env categoriesKey
      in case parse_index categoriesRaw of
           Inl e \<Rightarrow> (Inl e, env1)
         | Inr categories \<Rightarrow>
             if cat \<notin> set categories
             then (Inr (), kv_put env1 categoriesKey (JSON_stringify_list (categories @ [cat])))
             else (Inr (), env1))"

text \<open>
  The metadata a write stores: the payload's when it has one, the extracted one otherwise;
  \<open>None\<close> when the extraction fails, where \<^verbatim>\<open>storeMarkdown\<close> throws.
\<close>

definition resolved_metadata :: "SyncPayload \<Rightarrow> PostMetadata option" where
  "resolved_metadata payload =
     (case payload_metadata payload of
        None \<Rightarrow> extractMetadata (payload_content payload)
      | Some m \<Rightarrow> Some m)"

definition storeMarkdown :: "Env \<Rightarrow> SyncPayload \<Rightarrow> visibility \<Rightarrow> (error + unit) \<times> Env" where
  "storeMarkdown env payload st =
     (let storageKey = status_string st @ '':'' @ key payload in
      case resolved_metadata payload of
        None \<Rightarrow> (Inl (Error ''Invalid markdown: missing required frontmatter''), env)
      | Some md \<Rightarrow>
          (let env1 = kv_put env storageKey (payload_content payload);
               metadataKey = ''metadata:'' @ status_string st @ '':'' @ key payload;
               env2 = kv_put env1 metadataKey (JSON_stringify_metadata md);
               pathParts = split (CHR ''/'') (key payload)
           in if length pathParts < 3 \<or> st \<noteq> Published then (Inr (), env2)
              else
                (let lang = pathParts ! 0;
                     cat = pathParts ! 1;
                     s = pathParts ! 2;
                     fullCategoryKey = lang @ ''/'' @ cat
                 in case updateCategoryIndex env2 fullCategoryKey s of
                      (Inl e, env3) \<Rightarrow> (Inl e, env3)
                    | (Inr u, env3) \<Rightarrow> updateCategoriesList env3 fullCategoryKey)))"

section \<open>Reading\<close>

definition getMarkdown :: "Env \<Rightarrow> string \<Rightarrow> visibility \<Rightarrow> string option \<times> Env" where
  "getMarkdown env k st = kv_get env (status_string st @ '':'' @ k)"

definition getPostMetadata :: "Env \<Rightarrow> string \<Rightarrow> visibility \<Rightarrow> (error + PostMetadata option) \<times> Env" where
  "getPostMetadata env k st =
     (let metadataKey = ''metadata:'' @ status_string st @ '':'' @ k;
          (raw, env1) = kv_get env metadataKey
      in if truthy raw then
           (case JSON_parse_metadata (the raw) of
              None \<Rightarrow> (Inl MalformedJSON, env1)
            | Some m \<Rightarrow> (Inr (Some m), env1))
         else (Inr None, env1))"

definition getPost :: "Env \<Rightarrow> string \<Rightarrow> visibility \<Rightarrow> (error + Post option) \<times> Env" where
  "getPost env k st =
     (let pathParts = split (CHR ''/'') k in
      if length pathParts < 3 then (Inr None, env)
      else
        (let s = pathParts ! (length pathParts - 1);
             (text, env1) = getMarkdown env k st;
             (md, env2) = getPostMetadata env1 k st
         in case md of
              Inl e \<Rightarrow> (Inl e, env2)
            | Inr m \<Rightarrow>
                if \<not> truthy text \<or> m = None then (Inr None, env2)
                else (Inr (Some \<lparr>slug = s, metadata = the m, content = the text\<rparr>), env2)))"

definition getCategorySlugs :: "Env \<Rightarrow> string \<Rightarrow> (error + string list) \<times> Env" where
  "getCategorySlugs env cat =
     (let (raw, env1) = kv_get env (''index:'' @ cat) in (parse_index raw, env1))"

definition getCategories :: "Env \<Rightarrow> (error + string list) \<times> Env" where
  "getCategories env =
     (let (raw, env1) = kv_get env ''index:categories'' in (parse_index raw, env1))"

definition getCategoryInfo :: "Env \<Rightarrow> string \<Rightarrow> (error + CategoryInfo option) \<times> Env" where
  "getCategoryInfo env cat =
     (case getCategorySlugs env cat of
        (Inl e, env1) \<Rightarrow> (Inl e, env1)
      | (Inr slugs, env1) \<Rightarrow>
          if length slugs = 0 then (Inr None, env1)
          else (Inr (Some \<lparr>name = cat, postCount = length slugs, posts = slugs\<rparr>), env1))"

section \<open>Queries over the indexes\<close>

text \<open>
  The loop over the slugs of one category is the same in \<^verbatim>\<open>searchPosts\<close>,
  \<^verbatim>\<open>getRecentPosts\<close> and the handler of \<^verbatim>\<open>GET /api/posts/:category\<close>: the key is
  \<^verbatim>\<open>`${category}/${slug}`\<close>, the post is looked up, and it is pushed when it was found and
  passes the test \<open>keep\<close> (the match of the search; no test in the other two). An exception
  ends the loop.
\<close>

fun collect_slugs ::
  "(Post \<Rightarrow> bool) \<Rightarrow> Env \<Rightarrow> visibility \<Rightarrow> string \<Rightarrow> string list \<Rightarrow> Post list
     \<Rightarrow> (error + Post list) \<times> Env" where
  "collect_slugs keep env st cat [] results = (Inr results, env)"
| "collect_slugs keep env st cat (s # slugs) results =
     (case getPost env (cat @ ''/'' @ s) st of
        (Inl e, env1) \<Rightarrow> (Inl e, env1)
      | (Inr post, env1) \<Rightarrow>
          collect_slugs keep env1 st cat slugs
            (case post of
               None \<Rightarrow> results
             | Some p \<Rightarrow> if keep p then results @ [p] else results))"

text \<open>The loop over the catalog, for the categories of one language.\<close>

fun collect_categories ::
  "(Post \<Rightarrow> bool) \<Rightarrow> Env \<Rightarrow> visibility \<Rightarrow> string \<Rightarrow> string list \<Rightarrow> Post list
     \<Rightarrow> (error + Post list) \<times> Env" where
  "collect_categories keep env st lang [] results = (Inr results, env)"
| "collect_categories keep env st lang (cat # categories) results =
     (if startsWith cat (lang @ ''/'') then
        (case getCategorySlugs env cat of
           (Inl e, env1) \<Rightarrow> (Inl e, env1)
         | (Inr slugs, env1) \<Rightarrow>
             (case collect_slugs keep env1 st cat slugs results of
                (Inl e, env2) \<Rightarrow> (Inl e, env2)
              | (Inr results', env2) \<Rightarrow>
                  collect_categories keep env2 st lang categories results'))
      else collect_categories keep env st lang categories results)"

definition matches :: "string \<Rightarrow> Post \<Rightarrow> bool" where
  "matches query post =
     (includes_str (toLowerCase (title (metadata post))) (toLowerCase query)
      \<or> includes_str (toLowerCase (content post)) (toLowerCase query)
      \<or> (case tags (metadata post) of
            None \<Rightarrow> False
          | Some ts \<Rightarrow> list_ex (\<lambda>tag. includes_str (toLowerCase tag) (toLowerCase query)) ts))"

definition searchPosts :: "Env \<Rightarrow> string \<Rightarrow> visibility \<Rightarrow> string \<Rightarrow> (error + Post list) \<times> Env" where
  "searchPosts env query st lang =
     (case getCategories env of
        (Inl e, env1) \<Rightarrow> (Inl e, env1)
      | (Inr categories, env1) \<Rightarrow>
          collect_categories (matches query) env1 st lang categories [])"

subsection \<open>Dates and sorting\<close>

text \<open>
  \<^verbatim>\<open>new Date(s).getTime()\<close> in milliseconds, \<open>None\<close> for \<^verbatim>\<open>NaN\<close>. Only the date form
  \<^verbatim>\<open>YYYY-MM-DD\<close> of the ECMAScript date-time string format is read, as a day in UTC; every
  other string gives \<^verbatim>\<open>NaN\<close> here, where an engine may recognise further formats.
\<close>

definition digit :: "char \<Rightarrow> int option" where
  "digit c = map_of (zip ''0123456789'' [0, 1, 2, 3, 4, 5, 6, 7, 8, 9]) c"

fun digits :: "string \<Rightarrow> int \<Rightarrow> int option" where
  "digits [] acc = Some acc"
| "digits (c # cs) acc = (case digit c of None \<Rightarrow> None | Some d \<Rightarrow> digits cs (10 * acc + d))"

definition is_leap :: "int \<Rightarrow> bool" where
  "is_leap y = (y mod 4 = 0 \<and> (y mod 100 \<noteq> 0 \<or> y mod 400 = 0))"

definition days_in_month :: "int \<Rightarrow> int \<Rightarrow> int" where
  "days_in_month y m =
     (if m = 2 then (if is_leap y then 29 else 28)
      else if m = 4 \<or> m = 6 \<or> m = 9 \<or> m = 11 then 30
      else 31)"

text \<open>Days from 1970-01-01 to the given day of the proleptic Gregorian calendar.\<close>

definition days_from_civil :: "int \<Rightarrow> int \<Rightarrow> int \<Rightarrow> int" where
  "days_from_civil y m d =
     (let y' = (if m \<le> 2 then y - 1 else y);
          era = y' div 400;
          yoe = y' - era * 400;
          doy = (153 * (if m > 2 then m - 3 else m + 9) + 2) div 5 + d - 1;
          doe = yoe * 365 + yoe div 4 - yoe div 100 + doy
      in era * 146097 + doe - 719468)"

definition Date_getTime :: "string \<Rightarrow> int option" where
  "Date_getTime s =
     (if length s = 10 \<and> s ! 4 = CHR ''-'' \<and> s ! 7 = CHR ''-'' then
        (case (digits (take 4 s) 0, digits (take 2 (drop 5 s)) 0, digits (drop 8 s) 0) of
           (Some y, Some m, Some d) \<Rightarrow>
             if 1 \<le> m \<and> m \<le> 12 \<and> 1 \<le> d \<and> d \<le> days_in_month y m
             then Some (days_from_civil y m d * 86400000)
             else None
         | _ \<Rightarrow> None)
      else None)"

text \<open>
  The comparison function given to \<^verbatim>\<open>sort\<close>: the difference of the two time values,
  \<^verbatim>\<open>NaN\<close> when either is.
\<close>

definition compare_dates :: "Post \<Rightarrow> Post \<Rightarrow> int option" where
  "compare_dates a b =
     (case (Date_getTime (date (metadata b)), Date_getTime (date (metadata a))) of
        (Some tb, Some ta) \<Rightarrow> Some (tb - ta)
      | _ \<Rightarrow> None)"

text \<open>
  \<^verbatim>\<open>Array.prototype.sort\<close> is stable, and takes a comparison result of \<^verbatim>\<open>NaN\<close> as \<open>+0\<close>: an
  element moves behind another one only when the comparison of the two is positive. The
  model is the stable insertion sort; where the comparison function is a consistent order
  every stable sort gives the same list.
\<close>

fun insert_sorted :: "('a \<Rightarrow> 'a \<Rightarrow> int option) \<Rightarrow> 'a \<Rightarrow> 'a list \<Rightarrow> 'a list" where
  "insert_sorted cmp x [] = [x]"
| "insert_sorted cmp x (y # ys) =
     (if (case cmp x y of None \<Rightarrow> False | Some v \<Rightarrow> v > 0)
      then y # insert_sorted cmp x ys
      else x # y # ys)"

definition sort_by :: "('a \<Rightarrow> 'a \<Rightarrow> int option) \<Rightarrow> 'a list \<Rightarrow> 'a list" where
  "sort_by cmp xs = foldr (insert_sorted cmp) xs []"

text \<open>\<^verbatim>\<open>xs.slice(0, limit)\<close> for an integral \<open>limit\<close>: a negative one counts from the end.\<close>

definition slice0 :: "'a list \<Rightarrow> int \<Rightarrow> 'a list" where
  "slice0 xs limit =
     (if limit < 0 then take (nat (int (length xs) + limit)) xs else take (nat limit) xs)"

definition getRecentPosts :: "Env \<Rightarrow> int \<Rightarrow> visibility \<Rightarrow> string \<Rightarrow> (error + Post list) \<times> Env" where
  "getRecentPosts env limit st lang =
     (case getCategories env of
        (Inl e, env1) \<Rightarrow> (Inl e, env1)
      | (Inr categories, env1) \<Rightarrow>
          (case collect_categories (\<lambda>p. True) env1 st lang categories [] of
             (Inl e, env2) \<Rightarrow> (Inl e, env2)
           | (Inr allPosts, env2) \<Rightarrow> (Inr (slice0 (sort_by compare_dates allPosts) limit), env2)))"

subsection \<open>The listings of the request handler\<close>

text \<open>\<^verbatim>\<open>GET /api/posts/:category\<close> in \<^verbatim>\<open>handleAPIEndpoints\<close> (\<^verbatim>\<open>src/index.ts\<close>).\<close>

definition api_posts_category ::
  "Env \<Rightarrow> string \<Rightarrow> string \<Rightarrow> visibility \<Rightarrow> (error + Post list) \<times> Env" where
  "api_posts_category env lang cat st =
     (case getCategorySlugs env (lang @ ''/'' @ cat) of
        (Inl e, env1) \<Rightarrow> (Inl e, env1)
      | (Inr slugs, env1) \<Rightarrow> collect_slugs (\<lambda>p. True) env1 st (lang @ ''/'' @ cat) slugs [])"

text \<open>
  \<^verbatim>\<open>GET /api/categories\<close>: the catalog entries of the language, each with the slugs of its
  index, named without the language prefix; an entry whose index is empty is left out.
\<close>

fun category_infos ::
  "Env \<Rightarrow> string \<Rightarrow> string list \<Rightarrow> CategoryInfo list \<Rightarrow> (error + CategoryInfo list) \<times> Env" where
  "category_infos env lang [] categoryInfos = (Inr categoryInfos, env)"
| "category_infos env lang (cat # categories) categoryInfos =
     (if startsWith cat (lang @ ''/'') then
        (let categoryName = drop (length (lang @ ''/'')) cat in
         case getCategoryInfo env cat of
           (Inl e, env1) \<Rightarrow> (Inl e, env1)
         | (Inr info, env1) \<Rightarrow>
             category_infos env1 lang categories
               (case info of
                  None \<Rightarrow> categoryInfos
                | Some i \<Rightarrow> categoryInfos @ [i\<lparr>name := categoryName\<rparr>]))
      else category_infos env lang categories categoryInfos)"

definition api_categories :: "Env \<Rightarrow> string \<Rightarrow> (error + CategoryInfo list) \<times> Env" where
  "api_categories env lang =
     (case getCategories env of
        (Inl e, env1) \<Rightarrow> (Inl e, env1)
      | (Inr categories, env1) \<Rightarrow> category_infos env1 lang categories [])"

section \<open>Properties\<close>

abbreviation KV :: "Env \<Rightarrow> string \<rightharpoonup> string" where
  "KV env \<equiv> EKTUBESHI_CDN_KV env"

lemma split_nonempty: "split sep s \<noteq> []"
  by (induction s) (auto split: list.splits)

subsection \<open>Reads leave the namespace as it is\<close>

lemma kv_get_KV: "KV (snd (kv_get env k)) = KV env"
  by (simp add: kv_get_def)

lemma getMarkdown_KV: "KV (snd (getMarkdown env k st)) = KV env"
  by (simp add: getMarkdown_def kv_get_def)

lemma getPostMetadata_KV: "KV (snd (getPostMetadata env k st)) = KV env"
  by (simp add: getPostMetadata_def kv_get_def Let_def split: option.splits)

lemma getPost_KV: "KV (snd (getPost env k st)) = KV env"
proof -
  have "KV (snd (getPostMetadata (snd (getMarkdown env k st)) k st)) = KV env"
    by (simp add: getPostMetadata_KV getMarkdown_KV)
  then show ?thesis
    by (auto simp: getPost_def Let_def split: prod.splits sum.splits)
qed

lemma getCategorySlugs_KV: "KV (snd (getCategorySlugs env cat)) = KV env"
  by (simp add: getCategorySlugs_def kv_get_def Let_def)

lemma getCategories_KV: "KV (snd (getCategories env)) = KV env"
  by (simp add: getCategories_def kv_get_def Let_def)

lemma getCategoryInfo_KV: "KV (snd (getCategoryInfo env cat)) = KV env"
  using getCategorySlugs_KV [of env cat]
  by (auto simp: getCategoryInfo_def split: prod.splits sum.splits)

lemma collect_slugs_KV: "KV (snd (collect_slugs keep env st cat slugs acc)) = KV env"
proof (induction slugs arbitrary: env acc)
  case Nil
  then show ?case by simp
next
  case (Cons s slugs)
  show ?case
    using getPost_KV [of env "cat @ ''/'' @ s" st] Cons.IH
    by (auto split: prod.splits sum.splits)
qed

lemma collect_categories_KV:
  "KV (snd (collect_categories keep env st lang cats acc)) = KV env"
proof (induction cats arbitrary: env acc)
  case Nil
  then show ?case by simp
next
  case (Cons c cats)
  show ?case
  proof (cases "startsWith c (lang @ ''/'')")
    case False
    then show ?thesis using Cons.IH by simp
  next
    case True
    obtain r1 e1 where g: "getCategorySlugs env c = (r1, e1)" by (cases "getCategorySlugs env c")
    then have k1: "KV e1 = KV env" using getCategorySlugs_KV [of env c] by simp
    show ?thesis
    proof (cases r1)
      case (Inl e)
      with True g k1 show ?thesis by simp
    next
      case (Inr slugs)
      obtain r2 e2 where c2: "collect_slugs keep e1 st c slugs acc = (r2, e2)"
        by (cases "collect_slugs keep e1 st c slugs acc")
      then have k2: "KV e2 = KV env" using collect_slugs_KV [of keep e1 st c slugs acc] k1 by simp
      show ?thesis
        using True g Inr c2 k2 Cons.IH by (cases r2) simp_all
    qed
  qed
qed

lemma searchPosts_KV: "KV (snd (searchPosts env q st lang)) = KV env"
proof -
  obtain r e1 where g: "getCategories env = (r, e1)" by (cases "getCategories env")
  then have "KV e1 = KV env" using getCategories_KV [of env] by simp
  with g show ?thesis
    by (cases r) (simp_all add: searchPosts_def collect_categories_KV)
qed

lemma getRecentPosts_KV: "KV (snd (getRecentPosts env limit st lang)) = KV env"
proof -
  obtain r e1 where g: "getCategories env = (r, e1)" by (cases "getCategories env")
  then have k: "KV e1 = KV env" using getCategories_KV [of env] by simp
  show ?thesis
  proof (cases r)
    case (Inl e)
    with g k show ?thesis by (simp add: getRecentPosts_def)
  next
    case (Inr cats)
    obtain r2 e2 where c: "collect_categories (\<lambda>p. True) e1 st lang cats [] = (r2, e2)"
      by (cases "collect_categories (\<lambda>p. True) e1 st lang cats []")
    then have "KV e2 = KV env"
      using collect_categories_KV [of "\<lambda>p. True" e1 st lang cats "[]"] k by simp
    with g Inr c show ?thesis by (cases r2) (simp_all add: getRecentPosts_def)
  qed
qed

lemma api_posts_category_KV: "KV (snd (api_posts_category env lang cat st)) = KV env"
proof -
  obtain r e1 where g: "getCategorySlugs env (lang @ ''/'' @ cat) = (r, e1)"
    by (cases "getCategorySlugs env (lang @ ''/'' @ cat)")
  then have "KV e1 = KV env" using getCategorySlugs_KV [of env "lang @ ''/'' @ cat"] by simp
  with g show ?thesis
    by (cases r) (simp_all add: api_posts_category_def collect_slugs_KV)
qed

lemma category_infos_KV: "KV (snd (category_infos env lang cats acc)) = KV env"
proof (induction cats arbitrary: env acc)
  case Nil
  then show ?case by simp
next
  case (Cons c cats)
  obtain r e1 where g: "getCategoryInfo env c = (r, e1)" by (cases "getCategoryInfo env c")
  then have "KV e1 = KV env" using getCategoryInfo_KV [of env c] by simp
  with g Cons.IH show ?case by (cases r) (simp_all add: Let_def)
qed

lemma api_categories_KV: "KV (snd (api_categories env lang)) = KV env"
proof -
  obtain r e1 where g: "getCategories env = (r, e1)" by (cases "getCategories env")
  then have "KV e1 = KV env" using getCategories_KV [of env] by simp
  with g show ?thesis
    by (cases r) (simp_all add: api_categories_def category_infos_KV)
qed

subsection \<open>What a write does\<close>

lemma storeMarkdown_invalid:
  "resolved_metadata p = None \<Longrightarrow>
   storeMarkdown env p st = (Inl (Error ''Invalid markdown: missing required frontmatter''), env)"
  by (simp add: storeMarkdown_def)

lemma storeMarkdown_unindexed:
  assumes "resolved_metadata p = Some md"
    and "length (split (CHR ''/'') (key p)) < 3 \<or> st \<noteq> Published"
  shows "storeMarkdown env p st =
    (Inr (), kv_put (kv_put env (status_string st @ '':'' @ key p) (payload_content p))
               (''metadata:'' @ status_string st @ '':'' @ key p) (JSON_stringify_metadata md))"
  using assms by (auto simp: storeMarkdown_def Let_def)

lemma storeMarkdown_indexed:
  assumes "resolved_metadata p = Some md"
    and "3 \<le> length (split (CHR ''/'') (key p))"
  shows "storeMarkdown env p Published =
    (let parts = split (CHR ''/'') (key p);
         env2 = kv_put (kv_put env (''published:'' @ key p) (payload_content p))
                  (''metadata:published:'' @ key p) (JSON_stringify_metadata md)
     in case updateCategoryIndex env2 (parts ! 0 @ ''/'' @ parts ! 1) (parts ! 2) of
          (Inl e, env3) \<Rightarrow> (Inl e, env3)
        | (Inr u, env3) \<Rightarrow> updateCategoriesList env3 (parts ! 0 @ ''/'' @ parts ! 1))"
  using assms by (simp add: storeMarkdown_def Let_def split: prod.splits sum.splits)

text \<open>Append-if-absent on the sequence stored under an index key.\<close>

definition append_absent :: "Env \<Rightarrow> string \<Rightarrow> string \<Rightarrow> (error + unit) \<times> Env" where
  "append_absent env k x =
     (case parse_index (KV env k) of
        Inl e \<Rightarrow> (Inl e, env\<lparr>calls := calls env @ [Get k]\<rparr>)
      | Inr xs \<Rightarrow>
          if x \<in> set xs then (Inr (), env\<lparr>calls := calls env @ [Get k]\<rparr>)
          else (Inr (), env\<lparr>EKTUBESHI_CDN_KV := (KV env)(k \<mapsto> JSON_stringify_list (xs @ [x])),
                            calls := calls env @ [Get k, Put k (JSON_stringify_list (xs @ [x]))]\<rparr>))"

lemma updateCategoryIndex_append: "updateCategoryIndex env cat s = append_absent env (''index:'' @ cat) s"
  by (simp add: updateCategoryIndex_def append_absent_def kv_get_def kv_put_def Let_def
      split: sum.splits)

lemma updateCategoriesList_append: "updateCategoriesList env cat = append_absent env ''index:categories'' cat"
  by (simp add: updateCategoriesList_def append_absent_def kv_get_def kv_put_def Let_def
      split: sum.splits)

lemma parse_index_stringify: "parse_index (Some (JSON_stringify_list xs)) = Inr xs"
  by (simp add: parse_index_def truthy_def JSON_stringify_list_nonempty JSON_parse_stringify_list)

lemma parse_index_None: "parse_index None = Inr []"
  by (simp add: parse_index_def truthy_def)

lemma append_absent_other: "k' \<noteq> k \<Longrightarrow> KV (snd (append_absent env k x)) k' = KV env k'"
  by (simp add: append_absent_def split: sum.splits)

lemma append_absent_error:
  "fst (append_absent env k x) = Inl e \<Longrightarrow> KV (snd (append_absent env k x)) = KV env"
  by (auto simp: append_absent_def split: sum.splits if_splits)



subsection \<open>The key space\<close>

lemma content_key_not_metadata_key [simp]:
  "status_string st @ '':'' @ k \<noteq> ''metadata:'' @ k'"
  "''metadata:'' @ k' \<noteq> status_string st @ '':'' @ k"
  by (cases st; simp)+

lemma index_key_not_content_key [simp]:
  "''index:'' @ x \<noteq> status_string st @ '':'' @ k"
  "status_string st @ '':'' @ k \<noteq> ''index:'' @ x"
  by (cases st; simp)+

lemma index_key_not_metadata_key [simp]:
  "''index:'' @ x \<noteq> ''metadata:'' @ k"
  "''metadata:'' @ k \<noteq> ''index:'' @ x"
  by simp_all

lemma storeMarkdown_indexed_append:
  assumes "resolved_metadata p = Some md"
    and "3 \<le> length (split (CHR ''/'') (key p))"
  shows "storeMarkdown env p Published =
    (let parts = split (CHR ''/'') (key p);
         env2 = kv_put (kv_put env (''published:'' @ key p) (payload_content p))
                  (''metadata:published:'' @ key p) (JSON_stringify_metadata md)
     in case append_absent env2 (''index:'' @ parts ! 0 @ ''/'' @ parts ! 1) (parts ! 2) of
          (Inl e, env3) \<Rightarrow> (Inl e, env3)
        | (Inr u, env3) \<Rightarrow> append_absent env3 ''index:categories'' (parts ! 0 @ ''/'' @ parts ! 1))"
  using storeMarkdown_indexed [OF assms, of env]
  by (simp add: updateCategoryIndex_append updateCategoriesList_append Let_def
      split: prod.splits sum.splits)

text \<open>A write changes no key but its content key, its metadata key and index keys.\<close>

lemma storeMarkdown_KV_other:
  assumes "k \<noteq> status_string st @ '':'' @ key p"
    and "k \<noteq> ''metadata:'' @ status_string st @ '':'' @ key p"
    and "\<not> prefix ''index:'' k"
  shows "KV (snd (storeMarkdown env p st)) k = KV env k"
proof (cases "resolved_metadata p")
  case None
  then show ?thesis by (simp add: storeMarkdown_invalid)
next
  case (Some md)
  show ?thesis
  proof (cases "length (split (CHR ''/'') (key p)) < 3 \<or> st \<noteq> Published")
    case True
    then show ?thesis
      using assms by (simp add: storeMarkdown_unindexed [OF Some True] kv_put_def)
  next
    case False
    then have st: "st = Published" and len: "3 \<le> length (split (CHR ''/'') (key p))" by auto
    let ?parts = "split (CHR ''/'') (key p)"
    let ?env2 = "kv_put (kv_put env (''published:'' @ key p) (payload_content p))
                  (''metadata:published:'' @ key p) (JSON_stringify_metadata md)"
    let ?ik = "''index:'' @ ?parts ! 0 @ ''/'' @ ?parts ! 1"
    have k2: "KV ?env2 k = KV env k" using assms st by (simp add: kv_put_def)
    have ne1: "k \<noteq> ?ik" and ne2: "k \<noteq> ''index:categories''" using assms(3) by auto
    obtain r3 env3 where a: "append_absent ?env2 ?ik (?parts ! 2) = (r3, env3)"
      by (cases "append_absent ?env2 ?ik (?parts ! 2)")
    have k3: "KV env3 k = KV env k"
      using append_absent_other [OF ne1, of ?env2 "?parts ! 2"] a k2 by simp
    have k4: "KV (snd (append_absent env3 ''index:categories'' (?parts ! 0 @ ''/'' @ ?parts ! 1))) k
              = KV env k"
      using append_absent_other [OF ne2, of env3] k3 by simp
    show ?thesis
      using storeMarkdown_indexed_append [OF Some len, of env] a k3 k4 st
      by (cases r3) (simp_all add: Let_def)
  qed
qed

text \<open>A write that stores leaves its content and its metadata under their keys.\<close>

lemma storeMarkdown_stored:
  assumes "resolved_metadata p = Some md"
  shows "KV (snd (storeMarkdown env p st)) (status_string st @ '':'' @ key p)
           = Some (payload_content p)
         \<and> KV (snd (storeMarkdown env p st)) (''metadata:'' @ status_string st @ '':'' @ key p)
           = Some (JSON_stringify_metadata md)"
proof (cases "length (split (CHR ''/'') (key p)) < 3 \<or> st \<noteq> Published")
  case True
  then show ?thesis
    by (simp add: storeMarkdown_unindexed [OF assms True] kv_put_def)
next
  case False
  then have st: "st = Published" and len: "3 \<le> length (split (CHR ''/'') (key p))" by auto
  let ?parts = "split (CHR ''/'') (key p)"
  let ?env2 = "kv_put (kv_put env (''published:'' @ key p) (payload_content p))
                (''metadata:published:'' @ key p) (JSON_stringify_metadata md)"
  let ?ik = "''index:'' @ ?parts ! 0 @ ''/'' @ ?parts ! 1"
  have other: "KV (snd (append_absent e k x)) k' = KV e k'"
    if "k' = ''published:'' @ key p \<or> k' = ''metadata:published:'' @ key p"
      and "prefix ''index:'' k" for e k x k'
    using that by (intro append_absent_other) (auto simp: prefix_def)
  have k2: "KV ?env2 (''published:'' @ key p) = Some (payload_content p)"
    "KV ?env2 (''metadata:published:'' @ key p) = Some (JSON_stringify_metadata md)"
    by (simp_all add: kv_put_def)
  obtain r3 env3 where a: "append_absent ?env2 ?ik (?parts ! 2) = (r3, env3)"
    by (cases "append_absent ?env2 ?ik (?parts ! 2)")
  have k3: "KV env3 (''published:'' @ key p) = Some (payload_content p)"
    "KV env3 (''metadata:published:'' @ key p) = Some (JSON_stringify_metadata md)"
    using other [of _ ?ik ?env2 "?parts ! 2"] a k2 by simp_all
  have k4: "KV (snd (append_absent env3 ''index:categories'' x)) (''published:'' @ key p)
              = Some (payload_content p)"
    "KV (snd (append_absent env3 ''index:categories'' x)) (''metadata:published:'' @ key p)
              = Some (JSON_stringify_metadata md)" for x
    using other [of _ "''index:categories''" env3 x] k3 by simp_all
  show ?thesis
    using storeMarkdown_indexed_append [OF assms len, of env] a k3 k4 st
    by (cases r3) (simp_all add: Let_def)
qed

subsection \<open>Point lookups\<close>

lemma getMarkdown_fst: "fst (getMarkdown env k st) = KV env (status_string st @ '':'' @ k)"
  by (simp add: getMarkdown_def kv_get_def)

lemma getPostMetadata_fst:
  "fst (getPostMetadata env k st) =
     (let raw = KV env (''metadata:'' @ status_string st @ '':'' @ k) in
      if truthy raw then
        (case JSON_parse_metadata (the raw) of None \<Rightarrow> Inl MalformedJSON | Some m \<Rightarrow> Inr (Some m))
      else Inr None)"
  by (simp add: getPostMetadata_def kv_get_def Let_def split: option.splits)

lemma getPost_fst:
  "fst (getPost env k st) =
     (if length (split (CHR ''/'') k) < 3 then Inr None
      else case fst (getPostMetadata env k st) of
             Inl e \<Rightarrow> Inl e
           | Inr m \<Rightarrow>
               if \<not> truthy (KV env (status_string st @ '':'' @ k)) \<or> m = None then Inr None
               else Inr (Some \<lparr>slug = last (split (CHR ''/'') k), metadata = the m,
                                content = the (KV env (status_string st @ '':'' @ k))\<rparr>))"
proof -
  have l: "split (CHR ''/'') k ! (length (split (CHR ''/'') k) - 1) = last (split (CHR ''/'') k)"
    using split_nonempty [of "CHR ''/''" k] by (simp add: last_conv_nth)
  have m: "fst (getPostMetadata (snd (getMarkdown env k st)) k st) = fst (getPostMetadata env k st)"
    by (simp add: getPostMetadata_fst getMarkdown_KV)
  show ?thesis
    using l m getMarkdown_fst [of env k st]
    by (auto simp: getPost_def Let_def split: prod.splits sum.splits)
qed

lemma getPostMetadata_stored:
  "KV env (''metadata:'' @ status_string st @ '':'' @ k) = Some (JSON_stringify_metadata m) \<Longrightarrow>
   fst (getPostMetadata env k st) = Inr (Some m)"
  by (simp add: getPostMetadata_fst truthy_def JSON_stringify_metadata_nonempty
      JSON_parse_stringify_metadata)

subsection \<open>The front matter a write accepts\<close>




















text \<open>
  C1 (round trip), as amended. For every key with at least three segments (so for every key
  with exactly three), every visibility and every payload with non-empty content whose
  metadata, explicit or extracted, resolves: after \<open>storeMarkdown\<close> the point lookup at the
  same key and visibility returns the post with the written content, the written metadata
  and the last segment as slug. The namespace before the write is arbitrary.
\<close>

theorem storeMarkdown_getPost_roundtrip:
  assumes "3 \<le> length (split (CHR ''/'') (key p))"
    and "payload_content p \<noteq> []"
    and "resolved_metadata p = Some md"
  shows "fst (getPost (snd (storeMarkdown env p st)) (key p) st) =
           Inr (Some \<lparr>slug = last (split (CHR ''/'') (key p)), metadata = md,
                       content = payload_content p\<rparr>)"
proof -
  let ?env' = "snd (storeMarkdown env p st)"
  have c: "KV ?env' (status_string st @ '':'' @ key p) = Some (payload_content p)"
    and m: "KV ?env' (''metadata:'' @ status_string st @ '':'' @ key p)
              = Some (JSON_stringify_metadata md)"
    using storeMarkdown_stored [OF assms(3), of env st] by simp_all
  have "fst (getPostMetadata ?env' (key p) st) = Inr (Some md)"
    using m by (rule getPostMetadata_stored)
  then show ?thesis
    using assms(1,2) c by (simp add: getPost_fst truthy_def)
qed

theorem storeMarkdown_getPost_roundtrip_witness:
  "3 \<le> length (split (CHR ''/'') ''en/tech/a'')
   \<and> ''---\<newline>title: T\<newline>date: 2025-01-01\<newline>author: A\<newline>category: tech\<newline>---\<newline>body'' \<noteq> []
   \<and> resolved_metadata
        \<lparr>key = ''en/tech/a'',
         payload_content = ''---\<newline>title: T\<newline>date: 2025-01-01\<newline>author: A\<newline>category: tech\<newline>---\<newline>body'',
         payload_metadata = None\<rparr>
       = Some \<lparr>title = ''T'', date = ''2025-01-01'', author = ''A'', status = None,
               category = ''tech'', excerpt = None, tags = None, language = None\<rparr>
   \<and> fst (getPost
          (snd (storeMarkdown \<lparr>EKTUBESHI_CDN_KV = Map.empty, calls = []\<rparr>
             \<lparr>key = ''en/tech/a'',
              payload_content = ''---\<newline>title: T\<newline>date: 2025-01-01\<newline>author: A\<newline>category: tech\<newline>---\<newline>body'',
              payload_metadata = None\<rparr> Published))
          ''en/tech/a'' Published)
       = Inr (Some \<lparr>slug = ''a'',
                    metadata = \<lparr>title = ''T'', date = ''2025-01-01'', author = ''A'',
                                status = None, category = ''tech'', excerpt = None,
                                tags = None, language = None\<rparr>,
                    content = ''---\<newline>title: T\<newline>date: 2025-01-01\<newline>author: A\<newline>category: tech\<newline>---\<newline>body''\<rparr>)"
proof -
  let ?text = "''---\<newline>title: T\<newline>date: 2025-01-01\<newline>author: A\<newline>category: tech\<newline>---\<newline>body''"
  let ?p = "\<lparr>key = ''en/tech/a'', payload_content = ?text, payload_metadata = None\<rparr>"
  let ?md = "\<lparr>title = ''T'', date = ''2025-01-01'', author = ''A'', status = None,
              category = ''tech'', excerpt = None, tags = None, language = None\<rparr>"
  have s: "split (CHR ''/'') ''en/tech/a'' = [''en'', ''tech'', ''a'']" by code_simp
  have h1: "3 \<le> length (split (CHR ''/'') (key ?p))" by (simp add: s)
  have h2: "payload_content ?p \<noteq> []" by simp
  have h3: "resolved_metadata ?p = Some ?md" by code_simp
  show ?thesis
    using storeMarkdown_getPost_roundtrip [OF h1 h2 h3, of "\<lparr>EKTUBESHI_CDN_KV = Map.empty, calls = []\<rparr>" Published]
      h3 by (simp add: s)
qed

text \<open>
  The claim as stated fails at an empty content with explicit metadata: the write stores the
  empty string under the content key, and \<open>getPost\<close> takes an empty content for a missing one.
\<close>

theorem storeMarkdown_getPost_empty_content:
  "length (split (CHR ''/'') ''en/tech/a'') = 3
   \<and> fst (storeMarkdown \<lparr>EKTUBESHI_CDN_KV = Map.empty, calls = []\<rparr>
          \<lparr>key = ''en/tech/a'', payload_content = [],
           payload_metadata = Some \<lparr>title = ''T'', date = ''2025-01-01'', author = ''A'',
             status = Some ''draft'', category = ''tech'', excerpt = None, tags = None,
             language = None\<rparr>\<rparr> Draft) = Inr ()
   \<and> fst (getPost
          (snd (storeMarkdown \<lparr>EKTUBESHI_CDN_KV = Map.empty, calls = []\<rparr>
             \<lparr>key = ''en/tech/a'', payload_content = [],
              payload_metadata = Some \<lparr>title = ''T'', date = ''2025-01-01'', author = ''A'',
                status = Some ''draft'', category = ''tech'', excerpt = None, tags = None,
                language = None\<rparr>\<rparr> Draft))
          ''en/tech/a'' Draft) = Inr None"
  by code_simp




lemma category_key_not_catalog_key: "''index:'' @ l @ ''/'' @ c \<noteq> ''index:categories''"
proof
  assume "''index:'' @ l @ ''/'' @ c = ''index:categories''"
  then have "l @ ''/'' @ c = ''categories''" by simp
  then have "CHR ''/'' \<in> set ''categories''" by (metis in_set_conv_decomp append_Cons)
  then show False by simp
qed

lemma index_prefix_other:
  "prefix ''index:'' k \<Longrightarrow>
   k \<noteq> status_string st @ '':'' @ k' \<and> k \<noteq> ''metadata:'' @ k''"
  by (cases st) (auto simp: prefix_def)







text \<open>
  C10 (short keys), as amended. A write at a key of fewer than three segments whose
  metadata resolves returns normally, makes the two puts and no other call, and leaves
  every \<open>index:\<close> key as it was: the document enters no category index and not the catalog.
  After it the raw-content lookup and the metadata-only lookup at that key and visibility
  return the stored content and metadata. The point lookup \<open>getPost\<close> does not: it answers
  "not found" for every key of fewer than three segments.
\<close>

theorem storeMarkdown_short_key:
  assumes "length (split (CHR ''/'') (key p)) < 3"
    and "resolved_metadata p = Some md"
  shows "fst (storeMarkdown env p st) = Inr ()
    \<and> calls (snd (storeMarkdown env p st)) =
        calls env @
        [Put (status_string st @ '':'' @ key p) (payload_content p),
         Put (''metadata:'' @ status_string st @ '':'' @ key p) (JSON_stringify_metadata md)]
    \<and> (\<forall>k. prefix ''index:'' k \<longrightarrow> KV (snd (storeMarkdown env p st)) k = KV env k)
    \<and> fst (getMarkdown (snd (storeMarkdown env p st)) (key p) st) = Some (payload_content p)
    \<and> fst (getPostMetadata (snd (storeMarkdown env p st)) (key p) st) = Inr (Some md)
    \<and> fst (getPost (snd (storeMarkdown env p st)) (key p) st) = Inr None"
proof -
  have u: "length (split (CHR ''/'') (key p)) < 3 \<or> st \<noteq> Published" using assms(1) by simp
  note sm = storeMarkdown_unindexed [OF assms(2) u, of env]
  have f1: "\<forall>k. prefix ''index:'' k \<longrightarrow> KV (snd (storeMarkdown env p st)) k = KV env k"
    using index_prefix_other [of _ st "key p" "status_string st @ '':'' @ key p"]
    by (simp add: sm kv_put_def)
  have f2: "fst (getPostMetadata (snd (storeMarkdown env p st)) (key p) st) = Inr (Some md)"
    using storeMarkdown_stored [OF assms(2), of env st] by (simp add: getPostMetadata_stored)
  have f3: "fst (getMarkdown (snd (storeMarkdown env p st)) (key p) st) = Some (payload_content p)"
    using storeMarkdown_stored [OF assms(2), of env st] by (simp add: getMarkdown_fst)
  have f4: "fst (getPost (snd (storeMarkdown env p st)) (key p) st) = Inr None"
    using assms(1) by (simp add: getPost_fst)
  show ?thesis using f1 f2 f3 f4 by (simp add: sm kv_put_def)
qed

theorem storeMarkdown_short_key_witness:
  "length (split (CHR ''/'') ''en/about'') < 3
   \<and> resolved_metadata
        \<lparr>key = ''en/about'',
         payload_content = ''---\<newline>title: T\<newline>date: 2025-01-01\<newline>author: A\<newline>category: tech\<newline>---\<newline>body'',
         payload_metadata = None\<rparr>
       = Some \<lparr>title = ''T'', date = ''2025-01-01'', author = ''A'', status = None,
               category = ''tech'', excerpt = None, tags = None, language = None\<rparr>
   \<and> fst (getMarkdown
          (snd (storeMarkdown \<lparr>EKTUBESHI_CDN_KV = Map.empty, calls = []\<rparr>
             \<lparr>key = ''en/about'',
              payload_content = ''---\<newline>title: T\<newline>date: 2025-01-01\<newline>author: A\<newline>category: tech\<newline>---\<newline>body'',
              payload_metadata = None\<rparr> Draft))
          ''en/about'' Draft)
       = Some ''---\<newline>title: T\<newline>date: 2025-01-01\<newline>author: A\<newline>category: tech\<newline>---\<newline>body''
   \<and> fst (getPostMetadata
          (snd (storeMarkdown \<lparr>EKTUBESHI_CDN_KV = Map.empty, calls = []\<rparr>
             \<lparr>key = ''en/about'',
              payload_content = ''---\<newline>title: T\<newline>date: 2025-01-01\<newline>author: A\<newline>category: tech\<newline>---\<newline>body'',
              payload_metadata = None\<rparr> Draft))
          ''en/about'' Draft)
       = Inr (Some \<lparr>title = ''T'', date = ''2025-01-01'', author = ''A'', status = None,
                    category = ''tech'', excerpt = None, tags = None, language = None\<rparr>)
   \<and> fst (getPost
          (snd (storeMarkdown \<lparr>EKTUBESHI_CDN_KV = Map.empty, calls = []\<rparr>
             \<lparr>key = ''en/about'',
              payload_content = ''---\<newline>title: T\<newline>date: 2025-01-01\<newline>author: A\<newline>category: tech\<newline>---\<newline>body'',
              payload_metadata = None\<rparr> Draft))
          ''en/about'' Draft) = Inr None"
proof -
  let ?text = "''---\<newline>title: T\<newline>date: 2025-01-01\<newline>author: A\<newline>category: tech\<newline>---\<newline>body''"
  let ?p = "\<lparr>key = ''en/about'', payload_content = ?text, payload_metadata = None\<rparr>"
  let ?md = "\<lparr>title = ''T'', date = ''2025-01-01'', author = ''A'', status = None,
              category = ''tech'', excerpt = None, tags = None, language = None\<rparr>"
  have s: "split (CHR ''/'') ''en/about'' = [''en'', ''about'']" by code_simp
  have h1: "length (split (CHR ''/'') (key ?p)) < 3" by (simp add: s)
  have h2: "resolved_metadata ?p = Some ?md" by code_simp
  show ?thesis
    using storeMarkdown_short_key [OF h1 h2, of "\<lparr>EKTUBESHI_CDN_KV = Map.empty, calls = []\<rparr>" Draft] h2
    by (simp add: s)
qed

text \<open>
  The claim as stated fails for \<open>getPost\<close>: a document published at a key of two segments
  is returned by the raw-content lookup and not by the point lookup.
\<close>

theorem getPost_misses_published_short_key:
  "length (split (CHR ''/'') ''en/about'') = 2
   \<and> fst (getMarkdown
          (snd (storeMarkdown \<lparr>EKTUBESHI_CDN_KV = Map.empty, calls = []\<rparr>
             \<lparr>key = ''en/about'',
              payload_content = ''---\<newline>title: T\<newline>date: 2025-01-01\<newline>author: A\<newline>category: tech\<newline>---\<newline>body'',
              payload_metadata = None\<rparr> Published))
          ''en/about'' Published)
       = Some ''---\<newline>title: T\<newline>date: 2025-01-01\<newline>author: A\<newline>category: tech\<newline>---\<newline>body''
   \<and> fst (getPost
          (snd (storeMarkdown \<lparr>EKTUBESHI_CDN_KV = Map.empty, calls = []\<rparr>
             \<lparr>key = ''en/about'',
              payload_content = ''---\<newline>title: T\<newline>date: 2025-01-01\<newline>author: A\<newline>category: tech\<newline>---\<newline>body'',
              payload_metadata = None\<rparr> Published))
          ''en/about'' Published) = Inr None"
  by code_simp

subsection \<open>The namespace after a write, as a function of the namespace before\<close>

definition index_append :: "(string \<rightharpoonup> string) \<Rightarrow> string \<Rightarrow> string \<Rightarrow> (string \<rightharpoonup> string)" where
  "index_append m k x =
     (case parse_index (m k) of
        Inl e \<Rightarrow> m
      | Inr xs \<Rightarrow> if x \<in> set xs then m else m(k \<mapsto> JSON_stringify_list (xs @ [x])))"

definition stored :: "(string \<rightharpoonup> string) \<Rightarrow> SyncPayload \<Rightarrow> visibility \<Rightarrow> (string \<rightharpoonup> string)" where
  "stored m p st =
     (case resolved_metadata p of
        None \<Rightarrow> m
      | Some md \<Rightarrow>
          (let m2 = m(status_string st @ '':'' @ key p \<mapsto> payload_content p,
                      ''metadata:'' @ status_string st @ '':'' @ key p \<mapsto> JSON_stringify_metadata md);
               parts = split (CHR ''/'') (key p);
               ik = ''index:'' @ parts ! 0 @ ''/'' @ parts ! 1
           in if length parts < 3 \<or> st \<noteq> Published then m2
              else case parse_index (m2 ik) of
                     Inl e \<Rightarrow> m2
                   | Inr xs \<Rightarrow>
                       index_append (index_append m2 ik (parts ! 2)) ''index:categories''
                         (parts ! 0 @ ''/'' @ parts ! 1)))"

lemma KV_append_absent: "KV (snd (append_absent env k x)) = index_append (KV env) k x"
  by (simp add: append_absent_def index_append_def split: sum.splits)

lemma fst_append_absent:
  "fst (append_absent env k x) = (case parse_index (KV env k) of Inl e \<Rightarrow> Inl e | Inr xs \<Rightarrow> Inr ())"
  by (simp add: append_absent_def split: sum.splits)

lemma KV_storeMarkdown: "KV (snd (storeMarkdown env p st)) = stored (KV env) p st"
proof (cases "resolved_metadata p")
  case None
  then show ?thesis by (simp add: storeMarkdown_invalid stored_def)
next
  case (Some md)
  show ?thesis
  proof (cases "length (split (CHR ''/'') (key p)) < 3 \<or> st \<noteq> Published")
    case True
    then show ?thesis
      using Some by (auto simp: storeMarkdown_unindexed [OF Some True] kv_put_def stored_def)
  next
    case False
    then have st: "st = Published" and len: "3 \<le> length (split (CHR ''/'') (key p))" by auto
    let ?parts = "split (CHR ''/'') (key p)"
    let ?cat = "?parts ! 0 @ ''/'' @ ?parts ! 1"
    let ?ik = "''index:'' @ ?cat"
    let ?env2 = "kv_put (kv_put env (''published:'' @ key p) (payload_content p))
                  (''metadata:published:'' @ key p) (JSON_stringify_metadata md)"
    let ?m2 = "(KV env)(''published:'' @ key p \<mapsto> payload_content p,
                 ''metadata:published:'' @ key p \<mapsto> JSON_stringify_metadata md)"
    have m2: "KV ?env2 = ?m2" by (simp add: kv_put_def)
    obtain r3 env3 where a: "append_absent ?env2 ?ik (?parts ! 2) = (r3, env3)"
      by (cases "append_absent ?env2 ?ik (?parts ! 2)")
    have r3: "r3 = (case parse_index (?m2 ?ik) of Inl e \<Rightarrow> Inl e | Inr xs \<Rightarrow> Inr ())"
      using fst_append_absent [of ?env2 ?ik "?parts ! 2"] a m2 by simp
    have k3: "KV env3 = index_append ?m2 ?ik (?parts ! 2)"
      using KV_append_absent [of ?env2 ?ik "?parts ! 2"] a m2 by simp
    have sm: "KV (snd (storeMarkdown env p st)) =
                (case r3 of Inl e \<Rightarrow> KV env3
                 | Inr u \<Rightarrow> index_append (KV env3) ''index:categories'' ?cat)"
      using storeMarkdown_indexed_append [OF Some len, of env] a st
      by (simp add: Let_def KV_append_absent split: sum.splits)
    have st': "stored (KV env) p st =
                (case parse_index (?m2 ?ik) of Inl e \<Rightarrow> ?m2
                 | Inr xs \<Rightarrow> index_append (index_append ?m2 ?ik (?parts ! 2)) ''index:categories'' ?cat)"
      using Some st len by (simp add: stored_def Let_def split: sum.splits)
    show ?thesis
    proof (cases "parse_index (?m2 ?ik)")
      case (Inl e)
      then have "index_append ?m2 ?ik (?parts ! 2) = ?m2" by (simp add: index_append_def)
      with Inl r3 k3 sm st' show ?thesis by simp
    next
      case (Inr xs)
      with r3 k3 sm st' show ?thesis by simp
    qed
  qed
qed

lemma index_append_other: "k' \<noteq> k \<Longrightarrow> index_append m k x k' = m k'"
  by (simp add: index_append_def split: sum.splits)

lemma index_append_at:
  "parse_index (m k) = Inr xs \<Longrightarrow>
   parse_index (index_append m k x k) = Inr (if x \<in> set xs then xs else xs @ [x])"
  by (simp add: index_append_def parse_index_stringify)

lemma index_append_idem: "index_append (index_append m k x) k x = index_append m k x"
proof (cases "parse_index (m k)")
  case (Inl e)
  then show ?thesis by (simp add: index_append_def)
next
  case (Inr xs)
  then show ?thesis
    using index_append_at [of m k xs x] by (auto simp: index_append_def)
qed

lemma index_append_fixed:
  "parse_index (m k) = Inr xs \<Longrightarrow> x \<in> set xs \<Longrightarrow> index_append m k x = m"
  by (simp add: index_append_def)

lemma index_append_failed: "parse_index (m k) = Inl e \<Longrightarrow> index_append m k x = m"
  by (simp add: index_append_def)

lemma getCategorySlugs_fst: "fst (getCategorySlugs env cat) = parse_index (KV env (''index:'' @ cat))"
  by (simp add: getCategorySlugs_def kv_get_def Let_def)

lemma getCategories_fst: "fst (getCategories env) = parse_index (KV env ''index:categories'')"
  by (simp add: getCategories_def kv_get_def Let_def)

lemma index_append_prefix:
  assumes "parse_index (m k') = Inr xs"
  shows "\<exists>ys. parse_index (index_append m k x k') = Inr (xs @ ys)"
proof (cases "k' = k")
  case False
  then show ?thesis using assms by (simp add: index_append_other)
next
  case True
  then show ?thesis using assms index_append_at [of m k xs x] by auto
qed

lemma stored_prefix:
  assumes k: "prefix ''index:'' k" and xs: "parse_index (m k) = Inr xs"
  shows "\<exists>ys. parse_index (stored m p st k) = Inr (xs @ ys)"
proof (cases "resolved_metadata p")
  case None
  then show ?thesis using xs by (simp add: stored_def)
next
  case (Some md)
  let ?m2 = "m(status_string st @ '':'' @ key p \<mapsto> payload_content p,
               ''metadata:'' @ status_string st @ '':'' @ key p \<mapsto> JSON_stringify_metadata md)"
  let ?parts = "split (CHR ''/'') (key p)"
  let ?cat = "?parts ! 0 @ ''/'' @ ?parts ! 1"
  let ?ik = "''index:'' @ ?cat"
  have m2: "?m2 k = m k"
    using index_prefix_other [OF k, of st "key p" "status_string st @ '':'' @ key p"] by simp
  show ?thesis
  proof (cases "length ?parts < 3 \<or> st \<noteq> Published")
    case True
    then show ?thesis using Some xs m2 by (auto simp: stored_def Let_def)
  next
    case False
    show ?thesis
    proof (cases "parse_index (?m2 ?ik)")
      case (Inl e)
      then show ?thesis using Some False xs m2 by (auto simp: stored_def Let_def)
    next
      case (Inr zs)
      obtain ys1 where y1: "parse_index (index_append ?m2 ?ik (?parts ! 2) k) = Inr (xs @ ys1)"
        using index_append_prefix [of ?m2 k xs ?ik "?parts ! 2"] xs m2 by auto
      obtain ys2 where "parse_index (index_append (index_append ?m2 ?ik (?parts ! 2))
                          ''index:categories'' ?cat k) = Inr ((xs @ ys1) @ ys2)"
        using index_append_prefix [of "index_append ?m2 ?ik (?parts ! 2)" k "xs @ ys1"
            "''index:categories''" ?cat] y1 by auto
      then show ?thesis using Some False Inr by (auto simp: stored_def Let_def)
    qed
  qed
qed

lemma stored_idem: "stored (stored m p st) p st = stored m p st"
proof (cases "resolved_metadata p")
  case None
  then show ?thesis by (simp add: stored_def)
next
  case (Some md)
  let ?ck = "status_string st @ '':'' @ key p"
  let ?mk = "''metadata:'' @ status_string st @ '':'' @ key p"
  let ?W = "\<lambda>m::string \<rightharpoonup> string. m(?ck \<mapsto> payload_content p, ?mk \<mapsto> JSON_stringify_metadata md)"
  let ?parts = "split (CHR ''/'') (key p)"
  let ?cat = "?parts ! 0 @ ''/'' @ ?parts ! 1"
  let ?ik = "''index:'' @ ?cat"
  let ?gk = "''index:categories''"
  have WW: "?W (?W m) = ?W m" for m by (rule ext) simp
  show ?thesis
  proof (cases "length ?parts < 3 \<or> st \<noteq> Published")
    case True
    then show ?thesis using Some WW by (auto simp: stored_def Let_def)
  next
    case False
    have F: "stored n p st =
               (case parse_index (?W n ?ik) of Inl e \<Rightarrow> ?W n
                | Inr xs \<Rightarrow> index_append (index_append (?W n) ?ik (?parts ! 2)) ?gk ?cat)" for n
      using Some False by (simp add: stored_def Let_def split: sum.splits)
    have ik: "?ik \<noteq> ?ck" "?ik \<noteq> ?mk" "?gk \<noteq> ?ck" "?gk \<noteq> ?mk"
      using index_prefix_other [of ?ik st "key p" ?ck] index_prefix_other [of ?gk st "key p" ?ck]
      by simp_all
    have ne: "?ik \<noteq> ?gk" by (rule category_key_not_catalog_key)
    show ?thesis
    proof (cases "parse_index (?W m ?ik)")
      case (Inl e)
      then have n: "stored m p st = ?W m" by (simp add: F)
      have "parse_index (?W (?W m) ?ik) = Inl e" using Inl by (simp add: WW)
      then have "stored (?W m) p st = ?W (?W m)" by (simp add: F)
      then show ?thesis using n WW by simp
    next
      case (Inr xs)
      let ?n1 = "index_append (?W m) ?ik (?parts ! 2)"
      let ?n = "index_append ?n1 ?gk ?cat"
      have n: "stored m p st = ?n" using Inr by (simp add: F)
      have Wn: "?W ?n = ?n"
      proof (rule ext)
        fix k
        show "?W ?n k = ?n k"
          using ik index_append_other [of ?ck ?gk ?n1 ?cat] index_append_other [of ?mk ?gk ?n1 ?cat]
            index_append_other [of ?ck ?ik "?W m" "?parts ! 2"]
            index_append_other [of ?mk ?ik "?W m" "?parts ! 2"]
          by (auto simp: fun_upd_def)
      qed
      have at: "parse_index (?n ?ik) = Inr (if ?parts ! 2 \<in> set xs then xs else xs @ [?parts ! 2])"
        using index_append_at [of "?W m" ?ik xs "?parts ! 2"] Inr
          index_append_other [OF ne, of ?n1 ?cat] by simp
      then have fix1: "index_append ?n ?ik (?parts ! 2) = ?n"
        using index_append_fixed [of ?n ?ik _ "?parts ! 2"] by auto
      have fix2: "index_append ?n ?gk ?cat = ?n" by (rule index_append_idem)
      have "stored ?n p st = ?n"
        by (simp only: F Wn at sum.case fix1 fix2)
      then show ?thesis using n by simp
    qed
  qed
qed

lemma stored_index:
  assumes "resolved_metadata p = Some md"
    and "3 \<le> length (split (CHR ''/'') (key p))"
    and xs: "parse_index (m (''index:'' @ split (CHR ''/'') (key p) ! 0 @ ''/'' @ split (CHR ''/'') (key p) ! 1)) = Inr xs"
    and ys: "parse_index (m ''index:categories'') = Inr ys"
  shows "parse_index (stored m p Published
            (''index:'' @ split (CHR ''/'') (key p) ! 0 @ ''/'' @ split (CHR ''/'') (key p) ! 1))
          = Inr (if split (CHR ''/'') (key p) ! 2 \<in> set xs then xs
                 else xs @ [split (CHR ''/'') (key p) ! 2])
      \<and> parse_index (stored m p Published ''index:categories'')
          = Inr (if split (CHR ''/'') (key p) ! 0 @ ''/'' @ split (CHR ''/'') (key p) ! 1 \<in> set ys
                 then ys
                 else ys @ [split (CHR ''/'') (key p) ! 0 @ ''/'' @ split (CHR ''/'') (key p) ! 1])"
proof -
  let ?ck = "''published:'' @ key p"
  let ?mk = "''metadata:published:'' @ key p"
  let ?m2 = "m(?ck \<mapsto> payload_content p, ?mk \<mapsto> JSON_stringify_metadata md)"
  let ?parts = "split (CHR ''/'') (key p)"
  let ?cat = "?parts ! 0 @ ''/'' @ ?parts ! 1"
  let ?ik = "''index:'' @ ?cat"
  let ?gk = "''index:categories''"
  let ?n1 = "index_append ?m2 ?ik (?parts ! 2)"
  have ne: "?ik \<noteq> ?gk" by (rule category_key_not_catalog_key)
  then have ne': "?gk \<noteq> ?ik" by simp
  have m2i: "?m2 ?ik = m ?ik" and m2g: "?m2 ?gk = m ?gk" by simp_all
  have st: "stored m p Published = index_append ?n1 ?gk ?cat"
    using assms(1,2) xs m2i by (simp add: stored_def Let_def)
  have a: "parse_index (?n1 ?ik) = Inr (if ?parts ! 2 \<in> set xs then xs else xs @ [?parts ! 2])"
    using index_append_at [of ?m2 ?ik xs "?parts ! 2"] xs m2i by simp
  have b: "parse_index (?n1 ?gk) = Inr ys"
    using index_append_other [OF ne', of ?m2 "?parts ! 2"] ys m2g by simp
  have c: "index_append ?n1 ?gk ?cat ?ik = ?n1 ?ik"
    using index_append_other [OF ne, of ?n1 ?cat] by simp
  show ?thesis
    using a c index_append_at [of ?n1 ?gk ys ?cat] b by (simp add: st)
qed

lemma count_list_distinct: "distinct xs \<Longrightarrow> x \<in> set xs \<Longrightarrow> count_list xs x = 1"
  by (induction xs) auto

lemma count_list_append_absent:
  "distinct xs \<Longrightarrow>
   distinct (if x \<in> set xs then xs else xs @ [x])
   \<and> count_list (if x \<in> set xs then xs else xs @ [x]) x = 1"
  by (auto simp: count_list_distinct)

text \<open>
  The invariant of the data model: every \<open>index:\<close> key that is present holds the JSON text
  of a duplicate-free sequence. The empty namespace has it, and every write keeps it.
\<close>

definition duplicate_free_indexes :: "(string \<rightharpoonup> string) \<Rightarrow> bool" where
  "duplicate_free_indexes m =
     (\<forall>k. prefix ''index:'' k \<longrightarrow> (\<exists>xs. parse_index (m k) = Inr xs \<and> distinct xs))"

lemma duplicate_free_indexes_empty: "duplicate_free_indexes Map.empty"
  by (simp add: duplicate_free_indexes_def parse_index_None)

lemma index_append_duplicate_free:
  assumes "\<exists>xs. parse_index (m k') = Inr xs \<and> distinct xs"
  shows "\<exists>xs. parse_index (index_append m k x k') = Inr xs \<and> distinct xs"
proof (cases "k' = k")
  case False
  then show ?thesis using assms by (simp add: index_append_other)
next
  case True
  from assms obtain xs where xs: "parse_index (m k') = Inr xs" "distinct xs" by auto
  then show ?thesis using True index_append_at [of m k xs x] by auto
qed

lemma storeMarkdown_duplicate_free_indexes:
  assumes "duplicate_free_indexes (KV env)"
  shows "duplicate_free_indexes (KV (snd (storeMarkdown env p st)))"
  unfolding duplicate_free_indexes_def KV_storeMarkdown
proof (intro allI impI)
  fix k assume k: "prefix ''index:'' k"
  from assms k have d: "\<exists>xs. parse_index (KV env k) = Inr xs \<and> distinct xs"
    by (simp add: duplicate_free_indexes_def)
  show "\<exists>xs. parse_index (stored (KV env) p st k) = Inr xs \<and> distinct xs"
  proof (cases "resolved_metadata p")
    case None
    then show ?thesis using d by (simp add: stored_def)
  next
    case (Some md)
    let ?m2 = "(KV env)(status_string st @ '':'' @ key p \<mapsto> payload_content p,
                 ''metadata:'' @ status_string st @ '':'' @ key p \<mapsto> JSON_stringify_metadata md)"
    let ?parts = "split (CHR ''/'') (key p)"
    let ?cat = "?parts ! 0 @ ''/'' @ ?parts ! 1"
    let ?ik = "''index:'' @ ?cat"
    have m2: "?m2 k = KV env k"
      using index_prefix_other [OF k, of st "key p" "status_string st @ '':'' @ key p"] by simp
    then have d2: "\<exists>xs. parse_index (?m2 k) = Inr xs \<and> distinct xs" using d by simp
    have d3: "\<exists>xs. parse_index (index_append (index_append ?m2 ?ik (?parts ! 2))
                        ''index:categories'' ?cat k) = Inr xs \<and> distinct xs"
      by (intro index_append_duplicate_free d2)
    show ?thesis
      using Some d2 d3 by (auto simp: stored_def Let_def split: sum.splits)
  qed
qed

text \<open>
  C5 (index idempotence). For every environment, the same published write made twice leaves
  the namespace, and so the category index and the catalog, as the write made once leaves
  it. When the key has at least three segments, the metadata resolves, and the category
  index and the catalog read before the write as duplicate-free sequences (an absent key
  reads as the empty sequence), then after the two writes both read as duplicate-free
  sequences in which the slug, and the language/category pair, occur exactly once. The
  condition is the invariant \<open>duplicate_free_indexes\<close>, which holds of every namespace that
  writes have built from the empty one.
\<close>

theorem storeMarkdown_idempotent:
  "KV (snd (storeMarkdown (snd (storeMarkdown env p Published)) p Published))
     = KV (snd (storeMarkdown env p Published))
   \<and> (resolved_metadata p = Some md
        \<and> 3 \<le> length (split (CHR ''/'') (key p))
        \<and> fst (getCategorySlugs env (split (CHR ''/'') (key p) ! 0 @ ''/'' @ split (CHR ''/'') (key p) ! 1))
            = Inr xs
        \<and> distinct xs
        \<and> fst (getCategories env) = Inr ys
        \<and> distinct ys
      \<longrightarrow>
        (\<exists>xs' ys'.
           fst (getCategorySlugs (snd (storeMarkdown (snd (storeMarkdown env p Published)) p Published))
                 (split (CHR ''/'') (key p) ! 0 @ ''/'' @ split (CHR ''/'') (key p) ! 1)) = Inr xs'
           \<and> distinct xs'
           \<and> count_list xs' (split (CHR ''/'') (key p) ! 2) = 1
           \<and> fst (getCategories (snd (storeMarkdown (snd (storeMarkdown env p Published)) p Published)))
               = Inr ys'
           \<and> distinct ys'
           \<and> count_list ys' (split (CHR ''/'') (key p) ! 0 @ ''/'' @ split (CHR ''/'') (key p) ! 1) = 1))"
proof -
  let ?once = "snd (storeMarkdown env p Published)"
  let ?twice = "snd (storeMarkdown ?once p Published)"
  let ?parts = "split (CHR ''/'') (key p)"
  let ?cat = "?parts ! 0 @ ''/'' @ ?parts ! 1"
  have same: "KV ?twice = KV ?once"
    by (simp add: KV_storeMarkdown stored_idem)
  have counts: "\<exists>xs' ys'.
           fst (getCategorySlugs ?twice ?cat) = Inr xs' \<and> distinct xs'
           \<and> count_list xs' (?parts ! 2) = 1
           \<and> fst (getCategories ?twice) = Inr ys' \<and> distinct ys'
           \<and> count_list ys' ?cat = 1"
    if h: "resolved_metadata p = Some md" "3 \<le> length ?parts"
      "fst (getCategorySlugs env ?cat) = Inr xs" "distinct xs"
      "fst (getCategories env) = Inr ys" "distinct ys"
  proof -
    have i: "parse_index (KV env (''index:'' @ ?cat)) = Inr xs"
      and c: "parse_index (KV env ''index:categories'') = Inr ys"
      using h(3,5) by (simp_all add: getCategorySlugs_fst getCategories_fst)
    note s = stored_index [OF h(1,2) i c]
    have "fst (getCategorySlugs ?twice ?cat)
            = Inr (if ?parts ! 2 \<in> set xs then xs else xs @ [?parts ! 2])"
      using s by (simp add: getCategorySlugs_fst KV_storeMarkdown stored_idem)
    moreover have "fst (getCategories ?twice) = Inr (if ?cat \<in> set ys then ys else ys @ [?cat])"
      using s by (simp add: getCategories_fst KV_storeMarkdown stored_idem)
    ultimately show ?thesis
      using count_list_append_absent [OF h(4), of "?parts ! 2"]
        count_list_append_absent [OF h(6), of ?cat]
      by blast
  qed
  show ?thesis using same counts by blast
qed

theorem storeMarkdown_idempotent_witness:
  "resolved_metadata
      \<lparr>key = ''en/tech/a'',
       payload_content = ''---\<newline>title: T\<newline>date: 2025-01-01\<newline>author: A\<newline>category: tech\<newline>---\<newline>body'',
       payload_metadata = None\<rparr>
     = Some \<lparr>title = ''T'', date = ''2025-01-01'', author = ''A'', status = None,
             category = ''tech'', excerpt = None, tags = None, language = None\<rparr>
   \<and> 3 \<le> length (split (CHR ''/'') ''en/tech/a'')
   \<and> fst (getCategorySlugs
          \<lparr>EKTUBESHI_CDN_KV = [''index:en/tech'' \<mapsto> ''[\"b\"]'', ''index:categories'' \<mapsto> ''[\"en/tech\"]''],
           calls = []\<rparr> ''en/tech'') = Inr [''b'']
   \<and> distinct [''b'']
   \<and> fst (getCategories
          \<lparr>EKTUBESHI_CDN_KV = [''index:en/tech'' \<mapsto> ''[\"b\"]'', ''index:categories'' \<mapsto> ''[\"en/tech\"]''],
           calls = []\<rparr>) = Inr [''en/tech'']
   \<and> distinct [''en/tech'']
   \<and> (\<exists>xs' ys'.
         fst (getCategorySlugs
            (snd (storeMarkdown
               (snd (storeMarkdown
                  \<lparr>EKTUBESHI_CDN_KV = [''index:en/tech'' \<mapsto> ''[\"b\"]'', ''index:categories'' \<mapsto> ''[\"en/tech\"]''],
                   calls = []\<rparr>
                  \<lparr>key = ''en/tech/a'',
                   payload_content = ''---\<newline>title: T\<newline>date: 2025-01-01\<newline>author: A\<newline>category: tech\<newline>---\<newline>body'',
                   payload_metadata = None\<rparr> Published))
               \<lparr>key = ''en/tech/a'',
                payload_content = ''---\<newline>title: T\<newline>date: 2025-01-01\<newline>author: A\<newline>category: tech\<newline>---\<newline>body'',
                payload_metadata = None\<rparr> Published))
            ''en/tech'') = Inr xs'
         \<and> distinct xs' \<and> count_list xs' ''a'' = 1
         \<and> fst (getCategories
              (snd (storeMarkdown
                 (snd (storeMarkdown
                    \<lparr>EKTUBESHI_CDN_KV = [''index:en/tech'' \<mapsto> ''[\"b\"]'', ''index:categories'' \<mapsto> ''[\"en/tech\"]''],
                     calls = []\<rparr>
                    \<lparr>key = ''en/tech/a'',
                     payload_content = ''---\<newline>title: T\<newline>date: 2025-01-01\<newline>author: A\<newline>category: tech\<newline>---\<newline>body'',
                     payload_metadata = None\<rparr> Published))
                 \<lparr>key = ''en/tech/a'',
                  payload_content = ''---\<newline>title: T\<newline>date: 2025-01-01\<newline>author: A\<newline>category: tech\<newline>---\<newline>body'',
                  payload_metadata = None\<rparr> Published))) = Inr ys'
         \<and> distinct ys' \<and> count_list ys' ''en/tech'' = 1)"
proof -
  let ?text = "''---\<newline>title: T\<newline>date: 2025-01-01\<newline>author: A\<newline>category: tech\<newline>---\<newline>body''"
  let ?p = "\<lparr>key = ''en/tech/a'', payload_content = ?text, payload_metadata = None\<rparr>"
  let ?md = "\<lparr>title = ''T'', date = ''2025-01-01'', author = ''A'', status = None,
              category = ''tech'', excerpt = None, tags = None, language = None\<rparr>"
  let ?env = "\<lparr>EKTUBESHI_CDN_KV = [''index:en/tech'' \<mapsto> ''[\"b\"]'', ''index:categories'' \<mapsto> ''[\"en/tech\"]''],
               calls = []\<rparr>"
  have s: "split (CHR ''/'') ''en/tech/a'' = [''en'', ''tech'', ''a'']" by code_simp
  have h1: "resolved_metadata ?p = Some ?md" by code_simp
  have h2: "fst (getCategorySlugs ?env ''en/tech'') = Inr [''b'']" by code_simp
  have h3: "fst (getCategories ?env) = Inr [''en/tech'']" by code_simp
  show ?thesis
    using storeMarkdown_idempotent [of ?env ?p ?md "[''b'']" "[''en/tech'']"] h1 h2 h3
    by (simp add: s)
qed

text \<open>
  C6 (append-only). A write, at either visibility and whatever its payload, maps the
  sequence read from any category index, and the one read from the catalog, to a sequence
  that starts with it; and every query leaves the whole namespace as it found it.
\<close>

theorem index_append_only:
  "(fst (getCategorySlugs env cat) = Inr xs \<longrightarrow>
      (\<exists>ys. fst (getCategorySlugs (snd (storeMarkdown env p st)) cat) = Inr (xs @ ys)))
   \<and> (fst (getCategories env) = Inr cs \<longrightarrow>
      (\<exists>ds. fst (getCategories (snd (storeMarkdown env p st))) = Inr (cs @ ds)))
   \<and> KV (snd (getMarkdown env k st)) = KV env
   \<and> KV (snd (getPostMetadata env k st)) = KV env
   \<and> KV (snd (getPost env k st)) = KV env
   \<and> KV (snd (getCategorySlugs env cat)) = KV env
   \<and> KV (snd (getCategories env)) = KV env
   \<and> KV (snd (getCategoryInfo env cat)) = KV env
   \<and> KV (snd (searchPosts env q st lang)) = KV env
   \<and> KV (snd (getRecentPosts env limit st lang)) = KV env
   \<and> KV (snd (api_posts_category env lang c st)) = KV env
   \<and> KV (snd (api_categories env lang)) = KV env"
proof -
  have a: "\<exists>ys. fst (getCategorySlugs (snd (storeMarkdown env p st)) cat) = Inr (xs @ ys)"
    if "fst (getCategorySlugs env cat) = Inr xs"
    using that stored_prefix [of "''index:'' @ cat" "KV env" xs p st]
    by (simp add: getCategorySlugs_fst KV_storeMarkdown)
  have b: "\<exists>ds. fst (getCategories (snd (storeMarkdown env p st))) = Inr (cs @ ds)"
    if "fst (getCategories env) = Inr cs"
    using that stored_prefix [of "''index:categories''" "KV env" cs p st]
    by (simp add: getCategories_fst KV_storeMarkdown)
  show ?thesis
    using a b
    by (simp add: getMarkdown_KV getPostMetadata_KV getPost_KV getCategorySlugs_KV
        getCategories_KV getCategoryInfo_KV searchPosts_KV getRecentPosts_KV
        api_posts_category_KV api_categories_KV)
qed

theorem index_append_only_witness:
  "fst (getCategorySlugs
      \<lparr>EKTUBESHI_CDN_KV = [''index:en/tech'' \<mapsto> ''[\"b\"]'', ''index:categories'' \<mapsto> ''[\"en/tech\"]''],
       calls = []\<rparr> ''en/tech'') = Inr [''b'']
   \<and> fst (getCategories
      \<lparr>EKTUBESHI_CDN_KV = [''index:en/tech'' \<mapsto> ''[\"b\"]'', ''index:categories'' \<mapsto> ''[\"en/tech\"]''],
       calls = []\<rparr>) = Inr [''en/tech'']
   \<and> (\<exists>ys. fst (getCategorySlugs
          (snd (storeMarkdown
             \<lparr>EKTUBESHI_CDN_KV = [''index:en/tech'' \<mapsto> ''[\"b\"]'', ''index:categories'' \<mapsto> ''[\"en/tech\"]''],
              calls = []\<rparr>
             \<lparr>key = ''en/tech/a'',
              payload_content = ''---\<newline>title: T\<newline>date: 2025-01-01\<newline>author: A\<newline>category: tech\<newline>---\<newline>body'',
              payload_metadata = None\<rparr> Published))
          ''en/tech'') = Inr ([''b''] @ ys))
   \<and> (\<exists>ds. fst (getCategories
          (snd (storeMarkdown
             \<lparr>EKTUBESHI_CDN_KV = [''index:en/tech'' \<mapsto> ''[\"b\"]'', ''index:categories'' \<mapsto> ''[\"en/tech\"]''],
              calls = []\<rparr>
             \<lparr>key = ''en/tech/a'',
              payload_content = ''---\<newline>title: T\<newline>date: 2025-01-01\<newline>author: A\<newline>category: tech\<newline>---\<newline>body'',
              payload_metadata = None\<rparr> Published)))
        = Inr ([''en/tech''] @ ds))"
proof -
  let ?text = "''---\<newline>title: T\<newline>date: 2025-01-01\<newline>author: A\<newline>category: tech\<newline>---\<newline>body''"
  let ?p = "\<lparr>key = ''en/tech/a'', payload_content = ?text, payload_metadata = None\<rparr>"
  let ?env = "\<lparr>EKTUBESHI_CDN_KV = [''index:en/tech'' \<mapsto> ''[\"b\"]'', ''index:categories'' \<mapsto> ''[\"en/tech\"]''],
               calls = []\<rparr>"
  have h2: "fst (getCategorySlugs ?env ''en/tech'') = Inr [''b'']" by code_simp
  have h3: "fst (getCategories ?env) = Inr [''en/tech'']" by code_simp
  show ?thesis
    using index_append_only [of ?env "''en/tech''" "[''b'']" ?p Published "[''en/tech'']"] h2 h3
    by simp
qed

subsection \<open>Published queries do not read draft slots\<close>

definition draft_slot :: "string \<Rightarrow> bool" where
  "draft_slot k = (prefix ''draft:'' k \<or> prefix ''metadata:draft:'' k)"

definition agree_published :: "Env \<Rightarrow> Env \<Rightarrow> bool" where
  "agree_published e1 e2 = (\<forall>k. \<not> draft_slot k \<longrightarrow> KV e1 k = KV e2 k)"

lemma agree_published_KV:
  "agree_published e1 e2 \<Longrightarrow> KV e1' = KV e1 \<Longrightarrow> KV e2' = KV e2 \<Longrightarrow> agree_published e1' e2'"
  by (simp add: agree_published_def)

lemma agree_getPost:
  assumes "agree_published e1 e2"
  shows "fst (getPost e1 k Published) = fst (getPost e2 k Published)"
proof -
  have "\<not> draft_slot (''published:'' @ k)" "\<not> draft_slot (''metadata:published:'' @ k)"
    by (simp_all add: draft_slot_def)
  then have "KV e1 (''published:'' @ k) = KV e2 (''published:'' @ k)"
    "KV e1 (''metadata:published:'' @ k) = KV e2 (''metadata:published:'' @ k)"
    using assms unfolding agree_published_def by blast+
  then have "fst (getPostMetadata e1 k Published) = fst (getPostMetadata e2 k Published)"
    and "KV e1 (status_string Published @ '':'' @ k) = KV e2 (status_string Published @ '':'' @ k)"
    by (simp_all add: getPostMetadata_fst)
  then show ?thesis by (simp only: getPost_fst)
qed

lemma agree_index:
  assumes "agree_published e1 e2"
  shows "KV e1 (''index:'' @ c) = KV e2 (''index:'' @ c)"
proof -
  have "\<not> draft_slot (''index:'' @ c)" by (simp add: draft_slot_def)
  then show ?thesis using assms unfolding agree_published_def by blast
qed

lemma agree_getCategorySlugs:
  "agree_published e1 e2 \<Longrightarrow> fst (getCategorySlugs e1 c) = fst (getCategorySlugs e2 c)"
  using agree_index [of e1 e2 c] by (simp add: getCategorySlugs_fst)

lemma agree_getCategories:
  "agree_published e1 e2 \<Longrightarrow> fst (getCategories e1) = fst (getCategories e2)"
  using agree_index [of e1 e2 "''categories''"] by (simp add: getCategories_fst)

lemma agree_collect_slugs:
  "agree_published e1 e2 \<Longrightarrow>
   fst (collect_slugs keep e1 Published cat slugs acc)
     = fst (collect_slugs keep e2 Published cat slugs acc)"
proof (induction slugs arbitrary: e1 e2 acc)
  case Nil
  then show ?case by simp
next
  case (Cons s slugs)
  obtain r1 e1' where g1: "getPost e1 (cat @ ''/'' @ s) Published = (r1, e1')"
    by (cases "getPost e1 (cat @ ''/'' @ s) Published")
  obtain r2 e2' where g2: "getPost e2 (cat @ ''/'' @ s) Published = (r2, e2')"
    by (cases "getPost e2 (cat @ ''/'' @ s) Published")
  have r: "r1 = r2" using agree_getPost [OF Cons.prems, of "cat @ ''/'' @ s"] g1 g2 by simp
  have "agree_published e1' e2'"
    using agree_published_KV [OF Cons.prems, of e1' e2']
      getPost_KV [of e1 "cat @ ''/'' @ s" Published] getPost_KV [of e2 "cat @ ''/'' @ s" Published]
      g1 g2 by simp
  then show ?case using Cons.IH [of e1' e2'] g1 g2 r by (cases r2) simp_all
qed

lemma agree_collect_categories:
  "agree_published e1 e2 \<Longrightarrow>
   fst (collect_categories keep e1 Published lang cats acc)
     = fst (collect_categories keep e2 Published lang cats acc)"
proof (induction cats arbitrary: e1 e2 acc)
  case Nil
  then show ?case by simp
next
  case (Cons c cats)
  show ?case
  proof (cases "startsWith c (lang @ ''/'')")
    case False
    then show ?thesis using Cons.IH [OF Cons.prems] by simp
  next
    case True
    obtain r1 e1' where g1: "getCategorySlugs e1 c = (r1, e1')" by (cases "getCategorySlugs e1 c")
    obtain r2 e2' where g2: "getCategorySlugs e2 c = (r2, e2')" by (cases "getCategorySlugs e2 c")
    have r: "r1 = r2" using agree_getCategorySlugs [OF Cons.prems, of c] g1 g2 by simp
    have a1: "agree_published e1' e2'"
      using agree_published_KV [OF Cons.prems, of e1' e2']
        getCategorySlugs_KV [of e1 c] getCategorySlugs_KV [of e2 c] g1 g2 by simp
    show ?thesis
    proof (cases r2)
      case (Inl e)
      then show ?thesis using True g1 g2 r by simp
    next
      case (Inr slugs)
      obtain q1 d1 where c1: "collect_slugs keep e1' Published c slugs acc = (q1, d1)"
        by (cases "collect_slugs keep e1' Published c slugs acc")
      obtain q2 d2 where c2: "collect_slugs keep e2' Published c slugs acc = (q2, d2)"
        by (cases "collect_slugs keep e2' Published c slugs acc")
      have q: "q1 = q2" using agree_collect_slugs [OF a1, of keep c slugs acc] c1 c2 by simp
      have a2: "agree_published d1 d2"
        using agree_published_KV [OF a1, of d1 d2]
          collect_slugs_KV [of keep e1' Published c slugs acc]
          collect_slugs_KV [of keep e2' Published c slugs acc] c1 c2 by simp
      show ?thesis
        using True g1 g2 r Inr c1 c2 q Cons.IH [OF a2] by (cases q2) simp_all
    qed
  qed
qed

lemma agree_category_infos:
  "agree_published e1 e2 \<Longrightarrow>
   fst (category_infos e1 lang cats acc) = fst (category_infos e2 lang cats acc)"
proof (induction cats arbitrary: e1 e2 acc)
  case Nil
  then show ?case by simp
next
  case (Cons c cats)
  show ?case
  proof (cases "startsWith c (lang @ ''/'')")
    case False
    then show ?thesis using Cons.IH [OF Cons.prems] by simp
  next
    case True
    obtain r1 e1' where g1: "getCategoryInfo e1 c = (r1, e1')" by (cases "getCategoryInfo e1 c")
    obtain r2 e2' where g2: "getCategoryInfo e2 c = (r2, e2')" by (cases "getCategoryInfo e2 c")
    have "fst (getCategoryInfo e1 c) = fst (getCategoryInfo e2 c)"
      using agree_getCategorySlugs [OF Cons.prems, of c]
      by (auto simp: getCategoryInfo_def split: prod.splits sum.splits)
    then have r: "r1 = r2" using g1 g2 by simp
    have a1: "agree_published e1' e2'"
      using agree_published_KV [OF Cons.prems, of e1' e2']
        getCategoryInfo_KV [of e1 c] getCategoryInfo_KV [of e2 c] g1 g2 by simp
    show ?thesis
      using True g1 g2 r Cons.IH [OF a1] by (cases r2) (simp_all add: Let_def)
  qed
qed

lemma agree_after_getCategories:
  "agree_published e1 e2 \<Longrightarrow> agree_published (snd (getCategories e1)) (snd (getCategories e2))"
  by (rule agree_published_KV) (simp_all add: getCategories_KV)

lemma agree_searchPosts:
  assumes "agree_published e1 e2"
  shows "fst (searchPosts e1 q Published lang) = fst (searchPosts e2 q Published lang)"
proof -
  obtain r1 e1' where g1: "getCategories e1 = (r1, e1')" by (cases "getCategories e1")
  obtain r2 e2' where g2: "getCategories e2 = (r2, e2')" by (cases "getCategories e2")
  have r: "r1 = r2" using agree_getCategories [OF assms] g1 g2 by simp
  have a: "agree_published e1' e2'" using agree_after_getCategories [OF assms] g1 g2 by simp
  show ?thesis
    using g1 g2 r agree_collect_categories [OF a]
    by (cases r2) (simp_all add: searchPosts_def)
qed

lemma agree_getRecentPosts:
  assumes "agree_published e1 e2"
  shows "fst (getRecentPosts e1 limit Published lang) = fst (getRecentPosts e2 limit Published lang)"
proof -
  obtain r1 e1' where g1: "getCategories e1 = (r1, e1')" by (cases "getCategories e1")
  obtain r2 e2' where g2: "getCategories e2 = (r2, e2')" by (cases "getCategories e2")
  have r: "r1 = r2" using agree_getCategories [OF assms] g1 g2 by simp
  have a: "agree_published e1' e2'" using agree_after_getCategories [OF assms] g1 g2 by simp
  show ?thesis
  proof (cases r2)
    case (Inl e)
    then show ?thesis using g1 g2 r by (simp add: getRecentPosts_def)
  next
    case (Inr cats)
    have "fst (collect_categories (\<lambda>p. True) e1' Published lang cats [])
            = fst (collect_categories (\<lambda>p. True) e2' Published lang cats [])"
      by (rule agree_collect_categories [OF a])
    then show ?thesis
      using g1 g2 r Inr
      by (auto simp: getRecentPosts_def split: prod.splits sum.splits)
  qed
qed

lemma agree_api_posts_category:
  assumes "agree_published e1 e2"
  shows "fst (api_posts_category e1 lang cat Published) = fst (api_posts_category e2 lang cat Published)"
proof -
  let ?c = "lang @ ''/'' @ cat"
  obtain r1 e1' where g1: "getCategorySlugs e1 ?c = (r1, e1')" by (cases "getCategorySlugs e1 ?c")
  obtain r2 e2' where g2: "getCategorySlugs e2 ?c = (r2, e2')" by (cases "getCategorySlugs e2 ?c")
  have r: "r1 = r2" using agree_getCategorySlugs [OF assms, of ?c] g1 g2 by simp
  have a: "agree_published e1' e2'"
    using agree_published_KV [OF assms, of e1' e2']
      getCategorySlugs_KV [of e1 ?c] getCategorySlugs_KV [of e2 ?c] g1 g2 by simp
  show ?thesis
    using g1 g2 r agree_collect_slugs [OF a]
    by (cases r2) (simp_all add: api_posts_category_def)
qed

lemma agree_api_categories:
  assumes "agree_published e1 e2"
  shows "fst (api_categories e1 lang) = fst (api_categories e2 lang)"
proof -
  obtain r1 e1' where g1: "getCategories e1 = (r1, e1')" by (cases "getCategories e1")
  obtain r2 e2' where g2: "getCategories e2 = (r2, e2')" by (cases "getCategories e2")
  have r: "r1 = r2" using agree_getCategories [OF assms] g1 g2 by simp
  have a: "agree_published e1' e2'" using agree_after_getCategories [OF assms] g1 g2 by simp
  show ?thesis
    using g1 g2 r agree_category_infos [OF a]
    by (cases r2) (simp_all add: api_categories_def)
qed

lemma storeMarkdown_draft_agree: "agree_published (snd (storeMarkdown env p Draft)) env"
proof (cases "resolved_metadata p")
  case None
  then show ?thesis by (simp add: storeMarkdown_invalid agree_published_def)
next
  case (Some md)
  have u: "length (split (CHR ''/'') (key p)) < 3 \<or> Draft \<noteq> Published" by simp
  show ?thesis
    by (auto simp: storeMarkdown_unindexed [OF Some u] kv_put_def agree_published_def
        draft_slot_def)
qed

text \<open>
  C4 (draft isolation), as amended. A draft write, whatever its payload and the namespace
  it meets, changes the result of no category listing, catalog listing, search or recent
  query evaluated at visibility published. In the other direction a published write
  changes no point lookup at visibility draft (raw content, metadata, post): it writes no
  draft slot. It can change the listings, searches and recent queries evaluated at
  visibility draft, since they iterate the indexes that only published writes maintain.
\<close>

theorem draft_write_isolated:
  "fst (api_posts_category (snd (storeMarkdown env p Draft)) lang cat Published)
     = fst (api_posts_category env lang cat Published)
   \<and> fst (api_categories (snd (storeMarkdown env p Draft)) lang) = fst (api_categories env lang)
   \<and> fst (searchPosts (snd (storeMarkdown env p Draft)) q Published lang)
       = fst (searchPosts env q Published lang)
   \<and> fst (getRecentPosts (snd (storeMarkdown env p Draft)) limit Published lang)
       = fst (getRecentPosts env limit Published lang)
   \<and> fst (getMarkdown (snd (storeMarkdown env p Published)) k Draft) = fst (getMarkdown env k Draft)
   \<and> fst (getPostMetadata (snd (storeMarkdown env p Published)) k Draft)
       = fst (getPostMetadata env k Draft)
   \<and> fst (getPost (snd (storeMarkdown env p Published)) k Draft) = fst (getPost env k Draft)"
proof -
  note a = storeMarkdown_draft_agree [of env p]
  have c: "KV (snd (storeMarkdown env p Published)) (''draft:'' @ k) = KV env (''draft:'' @ k)"
    by (rule storeMarkdown_KV_other) (simp_all add: prefix_def)
  have m: "KV (snd (storeMarkdown env p Published)) (''metadata:draft:'' @ k)
             = KV env (''metadata:draft:'' @ k)"
    by (rule storeMarkdown_KV_other) (simp_all add: prefix_def)
  have gm: "fst (getPostMetadata (snd (storeMarkdown env p Published)) k Draft)
              = fst (getPostMetadata env k Draft)"
    using m by (simp add: getPostMetadata_fst)
  have gc: "KV (snd (storeMarkdown env p Published)) (status_string Draft @ '':'' @ k)
              = KV env (status_string Draft @ '':'' @ k)"
    using c by simp
  have gp: "fst (getPost (snd (storeMarkdown env p Published)) k Draft) = fst (getPost env k Draft)"
    using gm gc by (simp only: getPost_fst)
  show ?thesis
    using agree_api_posts_category [OF a] agree_api_categories [OF a] agree_searchPosts [OF a]
      agree_getRecentPosts [OF a] gm gp c
    by (simp add: getMarkdown_fst)
qed

theorem draft_write_isolated_witness:
  "fst (searchPosts
      (snd (storeMarkdown
         \<lparr>EKTUBESHI_CDN_KV =
            [''published:en/tech/a'' \<mapsto> ''# Body'',
             ''metadata:published:en/tech/a'' \<mapsto>
               ''{\"title\":\"T\",\"date\":\"2025-01-01\",\"author\":\"A\",\"category\":\"tech\"}'',
             ''index:en/tech'' \<mapsto> ''[\"a\"]'', ''index:categories'' \<mapsto> ''[\"en/tech\"]''],
          calls = []\<rparr>
         \<lparr>key = ''en/tech/a'',
          payload_content = ''---\<newline>title: Draft\<newline>date: 2025-02-02\<newline>author: A\<newline>category: tech\<newline>---\<newline>new body'',
          payload_metadata = None\<rparr> Draft))
      ''body'' Published ''en'')
   = Inr [\<lparr>slug = ''a'',
           metadata = \<lparr>title = ''T'', date = ''2025-01-01'', author = ''A'', status = None,
                       category = ''tech'', excerpt = None, tags = None, language = None\<rparr>,
           content = ''# Body''\<rparr>]"
proof -
  let ?env = "\<lparr>EKTUBESHI_CDN_KV =
            [''published:en/tech/a'' \<mapsto> ''# Body'',
             ''metadata:published:en/tech/a'' \<mapsto>
               ''{\"title\":\"T\",\"date\":\"2025-01-01\",\"author\":\"A\",\"category\":\"tech\"}'',
             ''index:en/tech'' \<mapsto> ''[\"a\"]'', ''index:categories'' \<mapsto> ''[\"en/tech\"]''],
          calls = []\<rparr>"
  let ?p = "\<lparr>key = ''en/tech/a'',
          payload_content = ''---\<newline>title: Draft\<newline>date: 2025-02-02\<newline>author: A\<newline>category: tech\<newline>---\<newline>new body'',
          payload_metadata = None\<rparr>"
  have b: "fst (searchPosts ?env ''body'' Published ''en'')
     = Inr [\<lparr>slug = ''a'',
           metadata = \<lparr>title = ''T'', date = ''2025-01-01'', author = ''A'', status = None,
                       category = ''tech'', excerpt = None, tags = None, language = None\<rparr>,
           content = ''# Body''\<rparr>]"
    by code_simp
  show ?thesis
    using draft_write_isolated [of ?env ?p "''en''" "''tech''" "''body''" 10 "''en/tech/a''"] b
    by simp
qed

text \<open>
  The claim as stated fails in the second direction: after a draft was written at
  \<open>en/tech/a\<close>, a search at visibility draft finds nothing, and the published write at the
  same identity makes the same search return the draft.
\<close>

theorem published_write_changes_draft_search:
  "fst (searchPosts
      (snd (storeMarkdown \<lparr>EKTUBESHI_CDN_KV = Map.empty, calls = []\<rparr>
         \<lparr>key = ''en/tech/a'',
          payload_content = ''---\<newline>title: T\<newline>date: 2025-01-01\<newline>author: A\<newline>category: tech\<newline>---\<newline>body'',
          payload_metadata = None\<rparr> Draft))
      ''body'' Draft ''en'') = Inr []
   \<and> fst (searchPosts
      (snd (storeMarkdown
         (snd (storeMarkdown \<lparr>EKTUBESHI_CDN_KV = Map.empty, calls = []\<rparr>
            \<lparr>key = ''en/tech/a'',
             payload_content = ''---\<newline>title: T\<newline>date: 2025-01-01\<newline>author: A\<newline>category: tech\<newline>---\<newline>body'',
             payload_metadata = None\<rparr> Draft))
         \<lparr>key = ''en/tech/a'',
          payload_content = ''---\<newline>title: T\<newline>date: 2025-01-01\<newline>author: A\<newline>category: tech\<newline>---\<newline>body'',
          payload_metadata = None\<rparr> Published))
      ''body'' Draft ''en'')
     = Inr [\<lparr>slug = ''a'',
             metadata = \<lparr>title = ''T'', date = ''2025-01-01'', author = ''A'', status = None,
                         category = ''tech'', excerpt = None, tags = None, language = None\<rparr>,
             content = ''---\<newline>title: T\<newline>date: 2025-01-01\<newline>author: A\<newline>category: tech\<newline>---\<newline>body''\<rparr>]"
  by code_simp

subsection \<open>Sorting by date\<close>

text \<open>The time value of a post's date, and the order "at least as recent as".\<close>

definition post_time :: "Post \<Rightarrow> int option" where
  "post_time p = Date_getTime (date (metadata p))"

definition newer_eq :: "Post \<Rightarrow> Post \<Rightarrow> bool" where
  "newer_eq a b = (the (post_time a) \<ge> the (post_time b))"

lemma mset_insert_sorted: "mset (insert_sorted cmp x ys) = add_mset x (mset ys)"
  by (induction ys) auto

lemma mset_sort_by: "mset (sort_by cmp xs) = mset xs"
  by (induction xs) (simp_all add: sort_by_def mset_insert_sorted)

lemma set_insert_sorted: "set (insert_sorted cmp x ys) = insert x (set ys)"
  using mset_insert_sorted [of cmp x ys] by (metis set_mset_add_mset_insert set_mset_mset)

lemma compare_dates_parsed:
  "post_time a \<noteq> None \<Longrightarrow> post_time b \<noteq> None \<Longrightarrow>
   compare_dates a b = Some (the (post_time b) - the (post_time a))"
  by (auto simp: compare_dates_def post_time_def)

lemma sorted_insert_sorted:
  assumes "post_time x \<noteq> None" and "\<forall>y \<in> set ys. post_time y \<noteq> None"
    and "sorted_wrt newer_eq ys"
  shows "sorted_wrt newer_eq (insert_sorted compare_dates x ys)"
  using assms
proof (induction ys)
  case Nil
  then show ?case by simp
next
  case (Cons y ys)
  have c: "compare_dates x y = Some (the (post_time y) - the (post_time x))"
    using Cons.prems by (simp add: compare_dates_parsed)
  show ?case
  proof (cases "the (post_time y) - the (post_time x) > 0")
    case True
    then have "newer_eq y x" by (simp add: newer_eq_def)
    then show ?thesis
      using Cons c True by (auto simp: set_insert_sorted)
  next
    case False
    then have xy: "newer_eq x y" by (simp add: newer_eq_def)
    have "\<forall>z \<in> set ys. newer_eq x z"
      using Cons.prems(3) xy by (auto simp: newer_eq_def)
    then show ?thesis
      using Cons.prems(3) c False xy by simp
  qed
qed

lemma sorted_sort_by:
  "\<forall>p \<in> set xs. post_time p \<noteq> None \<Longrightarrow> sorted_wrt newer_eq (sort_by compare_dates xs)"
proof (induction xs)
  case Nil
  then show ?case by (simp add: sort_by_def)
next
  case (Cons x xs)
  have s: "sort_by compare_dates (x # xs) = insert_sorted compare_dates x (sort_by compare_dates xs)"
    by (simp add: sort_by_def)
  have "\<forall>y \<in> set (sort_by compare_dates xs). post_time y \<noteq> None"
    using Cons.prems mset_sort_by [of compare_dates xs] by (metis list.set_intros(2) mset_eq_setD)
  then show ?case
    using Cons sorted_insert_sorted [of x "sort_by compare_dates xs"] by (simp add: s)
qed

lemma slice0_prefix: "\<exists>rest. slice0 xs limit @ rest = xs"
  by (metis slice0_def append_take_drop_id)

lemma length_slice0: "0 \<le> limit \<Longrightarrow> int (length (slice0 xs limit)) \<le> limit"
  by (simp add: slice0_def)

text \<open>The list \<^verbatim>\<open>allPosts\<close> that \<^verbatim>\<open>getRecentPosts\<close> has collected when it sorts.\<close>

definition allPosts :: "Env \<Rightarrow> visibility \<Rightarrow> string \<Rightarrow> error + Post list" where
  "allPosts env st lang =
     (case getCategories env of
        (Inl e, env1) \<Rightarrow> Inl e
      | (Inr categories, env1) \<Rightarrow>
          fst (collect_categories (\<lambda>p. True) env1 st lang categories []))"

lemma getRecentPosts_fst:
  "fst (getRecentPosts env limit st lang) =
     (case allPosts env st lang of
        Inl e \<Rightarrow> Inl e
      | Inr ps \<Rightarrow> Inr (slice0 (sort_by compare_dates ps) limit))"
  by (auto simp: getRecentPosts_def allPosts_def split: prod.splits sum.splits)

text \<open>
  C9 (recent ordering), as amended. When the loops of \<open>getRecentPosts\<close> have collected the
  posts \<open>found\<close>, the query returns a list \<open>ps\<close> that, with the posts \<open>rest\<close> it leaves out, is
  a rearrangement of \<open>found\<close>; for a limit that is not negative it returns at most \<open>limit\<close>
  posts; and when the date of every post found parses, \<open>ps\<close> followed by \<open>rest\<close> is in
  descending date order: the posts returned are in descending order and each is at least as
  recent as each post left out. Nothing is promised about a post whose date does not parse.
\<close>

theorem getRecentPosts_ordering:
  assumes "allPosts env st lang = Inr found"
  shows "\<exists>ps rest.
           fst (getRecentPosts env limit st lang) = Inr ps
           \<and> (0 \<le> limit \<longrightarrow> int (length ps) \<le> limit)
           \<and> mset (ps @ rest) = mset found
           \<and> ((\<forall>p \<in> set found. post_time p \<noteq> None) \<longrightarrow> sorted_wrt newer_eq (ps @ rest))"
proof -
  let ?sorted = "sort_by compare_dates found"
  let ?ps = "slice0 ?sorted limit"
  obtain rest where r: "?ps @ rest = ?sorted" using slice0_prefix [of ?sorted limit] by auto
  have "fst (getRecentPosts env limit st lang) = Inr ?ps"
    using assms by (simp add: getRecentPosts_fst)
  moreover have "0 \<le> limit \<longrightarrow> int (length ?ps) \<le> limit"
    by (simp add: length_slice0)
  moreover have "mset (?ps @ rest) = mset found"
    by (simp only: r mset_sort_by)
  moreover have "(\<forall>p \<in> set found. post_time p \<noteq> None) \<longrightarrow> sorted_wrt newer_eq (?ps @ rest)"
    by (simp only: r) (simp add: sorted_sort_by)
  ultimately show ?thesis by blast
qed

theorem getRecentPosts_ordering_witness:
  "(let env =
      \<lparr>EKTUBESHI_CDN_KV =
         [''published:en/tech/a'' \<mapsto> ''first'',
          ''metadata:published:en/tech/a'' \<mapsto>
            ''{\"title\":\"A\",\"date\":\"2025-01-01\",\"author\":\"A\",\"category\":\"tech\"}'',
          ''published:en/tech/b'' \<mapsto> ''second'',
          ''metadata:published:en/tech/b'' \<mapsto>
            ''{\"title\":\"B\",\"date\":\"2025-03-01\",\"author\":\"A\",\"category\":\"tech\"}'',
          ''published:en/tech/c'' \<mapsto> ''third'',
          ''metadata:published:en/tech/c'' \<mapsto>
            ''{\"title\":\"C\",\"date\":\"2025-02-01\",\"author\":\"A\",\"category\":\"tech\"}'',
          ''index:en/tech'' \<mapsto> ''[\"a\",\"b\",\"c\"]'',
          ''index:categories'' \<mapsto> ''[\"en/tech\"]''],
       calls = []\<rparr>
    in map_sum id (map (\<lambda>p. (slug p, post_time p))) (allPosts env Published ''en'')
         = Inr [(''a'', Some 1735689600000), (''b'', Some 1740787200000),
                (''c'', Some 1738368000000)]
       \<and> (\<exists>ps rest.
             fst (getRecentPosts env 2 Published ''en'') = Inr ps
             \<and> int (length ps) \<le> 2
             \<and> map slug ps = [''b'', ''c'']
             \<and> sorted_wrt newer_eq (ps @ rest)))"
proof -
  let ?env = "\<lparr>EKTUBESHI_CDN_KV =
         [''published:en/tech/a'' \<mapsto> ''first'',
          ''metadata:published:en/tech/a'' \<mapsto>
            ''{\"title\":\"A\",\"date\":\"2025-01-01\",\"author\":\"A\",\"category\":\"tech\"}'',
          ''published:en/tech/b'' \<mapsto> ''second'',
          ''metadata:published:en/tech/b'' \<mapsto>
            ''{\"title\":\"B\",\"date\":\"2025-03-01\",\"author\":\"A\",\"category\":\"tech\"}'',
          ''published:en/tech/c'' \<mapsto> ''third'',
          ''metadata:published:en/tech/c'' \<mapsto>
            ''{\"title\":\"C\",\"date\":\"2025-02-01\",\"author\":\"A\",\"category\":\"tech\"}'',
          ''index:en/tech'' \<mapsto> ''[\"a\",\"b\",\"c\"]'',
          ''index:categories'' \<mapsto> ''[\"en/tech\"]''],
       calls = []\<rparr>"
  define found where "found = projr (allPosts ?env Published ''en'')"
  have a: "map_sum id (map (\<lambda>p. (slug p, post_time p))) (allPosts ?env Published ''en'')
         = Inr [(''a'', Some 1735689600000), (''b'', Some 1740787200000),
                (''c'', Some 1738368000000)]"
    by code_simp
  then have f: "allPosts ?env Published ''en'' = Inr found"
    unfolding found_def by (cases "allPosts ?env Published ''en''") simp_all
  have pt: "map post_time found = [Some 1735689600000, Some 1740787200000, Some 1738368000000]"
  proof -
    have "map (\<lambda>p. (slug p, post_time p)) found
            = [(''a'', Some 1735689600000), (''b'', Some 1740787200000),
               (''c'', Some 1738368000000)]"
      using a f by simp
    then have "map snd (map (\<lambda>p. (slug p, post_time p)) found)
            = map snd [(''a'', Some 1735689600000), (''b'', Some 1740787200000),
               (''c'', Some (1738368000000::int))]"
      by (rule arg_cong)
    then show ?thesis by (simp add: comp_def)
  qed
  have parsed: "\<forall>p \<in> set found. post_time p \<noteq> None"
  proof
    fix p assume "p \<in> set found"
    then have "post_time p \<in> set (map post_time found)" by simp
    then show "post_time p \<noteq> None" unfolding pt by auto
  qed
  have r: "map_sum id (map slug) (fst (getRecentPosts ?env 2 Published ''en'')) = Inr [''b'', ''c'']"
    by code_simp
  obtain ps rest where p: "fst (getRecentPosts ?env 2 Published ''en'') = Inr ps"
    "int (length ps) \<le> 2" "sorted_wrt newer_eq (ps @ rest)"
    using getRecentPosts_ordering [OF f, of 2] parsed by auto
  have sl: "map slug ps = [''b'', ''c'']" using r p(1) by simp
  have ex: "\<exists>ps rest.
             fst (getRecentPosts ?env 2 Published ''en'') = Inr ps
             \<and> int (length ps) \<le> 2
             \<and> map slug ps = [''b'', ''c'']
             \<and> sorted_wrt newer_eq (ps @ rest)"
    using p sl by (intro exI [of _ ps] exI [of _ rest] conjI)
  from a ex show ?thesis unfolding Let_def by (rule conjI)
qed

text \<open>
  The claim as stated fails where a date does not parse: the comparison with such a post is
  \<^verbatim>\<open>NaN\<close>, which the sort takes as "equal", so the post stays ahead of a post with a
  parseable date that was collected after it. It also fails at a negative limit, where
  \<^verbatim>\<open>slice\<close> drops posts from the end: one post is returned for the limit \<open>-1\<close>.
\<close>

theorem getRecentPosts_unparseable_first:
  "(let env =
      \<lparr>EKTUBESHI_CDN_KV =
         [''published:en/tech/x'' \<mapsto> ''first'',
          ''metadata:published:en/tech/x'' \<mapsto>
            ''{\"title\":\"X\",\"date\":\"unknown\",\"author\":\"A\",\"category\":\"tech\"}'',
          ''published:en/tech/y'' \<mapsto> ''second'',
          ''metadata:published:en/tech/y'' \<mapsto>
            ''{\"title\":\"Y\",\"date\":\"2025-01-01\",\"author\":\"A\",\"category\":\"tech\"}'',
          ''index:en/tech'' \<mapsto> ''[\"x\",\"y\"]'',
          ''index:categories'' \<mapsto> ''[\"en/tech\"]''],
       calls = []\<rparr>
    in map_sum id (map (\<lambda>p. (slug p, date (metadata p), post_time p)))
         (fst (getRecentPosts env 10 Published ''en''))
         = Inr [(''x'', ''unknown'', None), (''y'', ''2025-01-01'', Some 1735689600000)]
       \<and> map_sum id (map slug) (fst (getRecentPosts env (- 1) Published ''en'')) = Inr [''x''])"
  by code_simp

text \<open>
  C8 (status interpretation): the extractor stores the lower-cased value of the status
  line as it is. For the status line \<^verbatim>\<open>status: Archived\<close> the extracted status is
  \<^verbatim>\<open>archived\<close>, which is neither of the two values the type of the field declares.
\<close>

theorem extractMetadata_status_archived:
  "map_option status
     (extractMetadata
        ''---\<newline>title: T\<newline>date: 2025-01-01\<newline>author: A\<newline>status: Archived\<newline>category: tech\<newline>---\<newline>body'')
   = Some (Some ''archived'')"
  by code_simp

theorem extractMetadata_status_archived_witness:
  "\<exists>m. extractMetadata
        ''---\<newline>title: T\<newline>date: 2025-01-01\<newline>author: A\<newline>status: Archived\<newline>category: tech\<newline>---\<newline>body''
        = Some m
      \<and> status m = Some ''archived'' \<and> status m \<noteq> Some ''draft'' \<and> status m \<noteq> Some ''published''"
  using extractMetadata_status_archived by auto

end
